theory Spec2Isabelle
  imports Complex_Main "HOL-Library.AList" "HOL-Library.Sublist"
begin

section \<open>Tensors, modules and state dictionaries\<close>

text \<open>
  The two algorithms of the repository (\<^verbatim>\<open>fluke/algorithms/fedavgm.py\<close> and
  \<^verbatim>\<open>fluke/algorithms/feddyn.py\<close>) compute on PyTorch tensors. The embedding reads a
  tensor as its shape together with its elements in row-major order. Elements are real
  numbers: rounding, infinities and NaN of the floating-point types are outside the
  embedding, and a division whose divisor is zero is reported as \<open>NonFinite\<close>.
  Element-wise operations are embedded on operands of equal shape, the case the
  repository's invariants allow; an operation on operands of different shapes is
  reported as \<open>RuntimeError\<close> (PyTorch's broadcasting is not embedded).
  Every Python exception is a value of \<open>error\<close>; a call that raises returns \<open>Inl\<close>.
\<close>

datatype error =
    TypeError | AttributeError | RuntimeError | KeyError | IndexError
  | ValueError | ZeroDivisionError | AssertionError | NonFinite

record tensor =
  shape :: "nat list"
  data :: "real list"

definition numel :: "tensor \<Rightarrow> nat" where
  "numel t = prod_list (shape t)"

definition wf_tensor :: "tensor \<Rightarrow> bool" where
  "wf_tensor t = (length (data t) = numel t)"

record param =
  val :: tensor
  requires_grad :: bool

text \<open>
  A \<^verbatim>\<open>torch.nn.Module\<close> is read through the two capabilities the code uses:
  \<^verbatim>\<open>named_parameters()\<close>, an ordered enumeration of named parameters, each with its
  \<^verbatim>\<open>requires_grad\<close> flag, and the buffers, which together with the parameters
  make up \<^verbatim>\<open>state_dict()\<close>.
\<close>

record module =
  named_parameters :: "(string \<times> param) list"
  named_buffers :: "(string \<times> tensor) list"

definition parameters :: "module \<Rightarrow> param list" where
  "parameters m = map snd (named_parameters m)"

type_synonym state_dict = "(string \<times> tensor) list"

definition state_dict_of :: "module \<Rightarrow> state_dict" where
  "state_dict_of m = map (\<lambda>(k, p). (k, val p)) (named_parameters m) @ named_buffers m"

definition wf_module :: "module \<Rightarrow> bool" where
  "wf_module m =
     (distinct (map fst (state_dict_of m)) \<and> list_all (\<lambda>(k, t). wf_tensor t) (state_dict_of m))"

text \<open>
  \<^verbatim>\<open>Module.load_state_dict(sd, strict)\<close>: every entry of the module's own state whose
  key is in \<open>sd\<close> takes the value stored there; a size mismatch raises, and with
  \<open>strict\<close> a missing or unexpected key raises too. The \<^verbatim>\<open>requires_grad\<close> flags
  are not touched.
\<close>

definition load_state_dict :: "bool \<Rightarrow> module \<Rightarrow> state_dict \<Rightarrow> error + module" where
  "load_state_dict strict m sd =
     (if strict \<and> set (map fst (state_dict_of m)) \<noteq> set (map fst sd) then Inl RuntimeError
      else if list_ex (\<lambda>(k, t). case map_of sd k of None \<Rightarrow> False
                                  | Some t' \<Rightarrow> shape t' \<noteq> shape t) (state_dict_of m)
      then Inl RuntimeError
      else Inr \<lparr> named_parameters =
                    map (\<lambda>(k, p). (k, case map_of sd k of None \<Rightarrow> p
                                       | Some t' \<Rightarrow> p\<lparr>val := t'\<rparr>)) (named_parameters m),
                 named_buffers =
                    map (\<lambda>(k, t). (k, case map_of sd k of None \<Rightarrow> t
                                       | Some t' \<Rightarrow> t')) (named_buffers m) \<rparr>)"

section \<open>Flattening the trainable parameters (feddyn.py, lines 33 to 63)\<close>

text \<open>
  A flattened vector carries, beside its elements, whether it is still attached to the
  autograd graph of the parameters: \<^verbatim>\<open>param.clone().detach().reshape(-1)\<close> is a
  detached copy, \<^verbatim>\<open>param.reshape(-1)\<close> of a parameter that requires a gradient is
  attached, and \<^verbatim>\<open>torch.cat\<close> of tensors is attached when one of them is.
\<close>

record flat =
  elems :: "real list"
  attached :: bool

definition flat_piece :: "bool \<Rightarrow> param \<Rightarrow> flat" where
  "flat_piece copy p = \<lparr> elems = data (val p), attached = (\<not> copy \<and> requires_grad p) \<rparr>"

definition cat :: "flat \<Rightarrow> flat \<Rightarrow> flat" where
  "cat a b = \<lparr> elems = elems a @ elems b, attached = (attached a \<or> attached b) \<rparr>"

fun get_all_params_loop :: "bool \<Rightarrow> flat option \<Rightarrow> param list \<Rightarrow> flat option" where
  "get_all_params_loop copy result [] = result"
| "get_all_params_loop copy result (p # ps) =
     (if \<not> requires_grad p then get_all_params_loop copy result ps
      else (case result of
              None \<Rightarrow> get_all_params_loop copy (Some (flat_piece copy p)) ps
            | Some r \<Rightarrow> get_all_params_loop copy (Some (cat r (flat_piece copy p))) ps))"

definition get_all_params_of :: "module \<Rightarrow> bool \<Rightarrow> flat option" where
  "get_all_params_of model copy = get_all_params_loop copy None (parameters model)"

text \<open>
  \<^verbatim>\<open>load_all_params\<close>: \<open>dict_param\<close> is a deep copy of the named parameters; the loop
  walks the named parameters, skips those that do not require a gradient, and copies the
  slice \<^verbatim>\<open>params[idx : idx + length]\<close>, reshaped to the parameter's shape, into
  \<open>dict_param[name]\<close>. Slicing a tensor never raises (it truncates), reshaping raises
  when the number of elements does not fit, and subscripting \<open>None\<close> raises.
\<close>

fun load_all_params_loop ::
  "real list option \<Rightarrow> nat \<Rightarrow> (string \<times> param) list \<Rightarrow> (string \<times> param) list
     \<Rightarrow> error + (string \<times> param) list" where
  "load_all_params_loop params idx dict_param [] = Inr dict_param"
| "load_all_params_loop params idx dict_param ((name, p) # rest) =
     (if \<not> requires_grad p then load_all_params_loop params idx dict_param rest
      else
        (let weights = val p; len = length (data weights) in
         case params of
           None \<Rightarrow> Inl TypeError
         | Some v \<Rightarrow>
             (let slice = take len (drop idx v) in
              if length slice \<noteq> numel weights then Inl RuntimeError
              else (case map_of dict_param name of
                      None \<Rightarrow> Inl KeyError
                    | Some dp \<Rightarrow>
                        if shape (val dp) \<noteq> shape weights then Inl RuntimeError
                        else load_all_params_loop params (idx + len)
                               (AList.update name
                                  (dp\<lparr>val := \<lparr> shape = shape weights, data = slice \<rparr>\<rparr>) dict_param)
                               rest))))"

definition load_all_params :: "module \<Rightarrow> real list option \<Rightarrow> error + module" where
  "load_all_params model params =
     (case load_all_params_loop params 0 (named_parameters model) (named_parameters model) of
        Inl e \<Rightarrow> Inl e
      | Inr dict_param \<Rightarrow>
          load_state_dict False model (map (\<lambda>(k, p). (k, val p)) dict_param))"

definition trainable :: "module \<Rightarrow> param list" where
  "trainable m = filter requires_grad (parameters m)"


definition arch :: "module \<Rightarrow> (string \<times> nat list \<times> bool) list \<times> (string \<times> nat list) list" where
  "arch m = (map (\<lambda>(k, p). (k, shape (val p), requires_grad p)) (named_parameters m),
             map (\<lambda>(k, t). (k, shape t)) (named_buffers m))"

section \<open>Element-wise arithmetic\<close>

fun bindE :: "error + 'a \<Rightarrow> ('a \<Rightarrow> error + 'b) \<Rightarrow> error + 'b" where
  "bindE (Inl e) f = Inl e"
| "bindE (Inr x) f = f x"

fun mapE :: "('a \<Rightarrow> error + 'b) \<Rightarrow> 'a list \<Rightarrow> error + 'b list" where
  "mapE f [] = Inr []"
| "mapE f (x # xs) = bindE (f x) (\<lambda>y. bindE (mapE f xs) (\<lambda>ys. Inr (y # ys)))"

definition vec_zip :: "(real \<Rightarrow> real \<Rightarrow> real) \<Rightarrow> real list \<Rightarrow> real list \<Rightarrow> error + real list" where
  "vec_zip f xs ys = (if length xs = length ys then Inr (map2 f xs ys) else Inl RuntimeError)"

definition vec_scale :: "real \<Rightarrow> real list \<Rightarrow> real list" where
  "vec_scale a xs = map (\<lambda>x. a * x) xs"

definition vec_neg :: "real list \<Rightarrow> real list" where
  "vec_neg xs = map uminus xs"

definition zeros_like :: "flat \<Rightarrow> real list" where
  "zeros_like f = replicate (length (elems f)) 0"

definition tensor_zip :: "(real \<Rightarrow> real \<Rightarrow> real) \<Rightarrow> tensor \<Rightarrow> tensor \<Rightarrow> error + tensor" where
  "tensor_zip f a b =
     (if shape a = shape b then Inr \<lparr> shape = shape a, data = map2 f (data a) (data b) \<rparr>
      else Inl RuntimeError)"

definition tensor_scale :: "real \<Rightarrow> tensor \<Rightarrow> tensor" where
  "tensor_scale a t = \<lparr> shape = shape t, data = map (\<lambda>x. a * x) (data t) \<rparr>"

section \<open>The channel\<close>

text \<open>
  Modelled from the spec: the class \<^verbatim>\<open>Channel\<close> and the class \<^verbatim>\<open>Message\<close> of
  \<^verbatim>\<open>fluke/comm.py\<close> are not among the sources. The spec (sections 3 and 6) gives
  synchronous point-to-point message passing keyed by sender, recipient and type, each
  message consumed exactly once, and a missing message as a fatal error. The channel is
  the list of pending messages in the order they were sent; \<open>receive\<close> takes the
  oldest pending message of the recipient that has the sender and the type asked for.
  The \<open>history\<close> records every send and every receive, in order, and is there for
  statements about the order of messages only.
\<close>

datatype party = Server | Client int

datatype payload =
    Count nat
  | Weight real
  | Models module module
  | ClientModel "module option"
  | Grads "real list option"

record message =
  payload :: payload
  msg_type :: string
  sender :: party

datatype event = Sent party party string | Received party party string

record channel =
  pending :: "(party \<times> message) list"
  history :: "event list"

definition send :: "channel \<Rightarrow> message \<Rightarrow> party \<Rightarrow> channel" where
  "send ch msg recipient =
     \<lparr> pending = pending ch @ [(recipient, msg)],
       history = history ch @ [Sent (sender msg) recipient (msg_type msg)] \<rparr>"

fun take_message ::
  "party \<Rightarrow> party \<Rightarrow> string \<Rightarrow> (party \<times> message) list
     \<Rightarrow> (message \<times> (party \<times> message) list) option" where
  "take_message recipient sndr mtype [] = None"
| "take_message recipient sndr mtype ((r, m) # rest) =
     (if r = recipient \<and> sender m = sndr \<and> msg_type m = mtype then Some (m, rest)
      else (case take_message recipient sndr mtype rest of
              None \<Rightarrow> None
            | Some (m', rest') \<Rightarrow> Some (m', (r, m) # rest')))"

definition receive :: "channel \<Rightarrow> party \<Rightarrow> party \<Rightarrow> string \<Rightarrow> error + (message \<times> channel)" where
  "receive ch recipient sndr mtype =
     (case take_message recipient sndr mtype (pending ch) of
        None \<Rightarrow> Inl ValueError
      | Some (m, rest) \<Rightarrow>
          Inr (m, \<lparr> pending = rest,
                    history = history ch @ [Received sndr recipient mtype] \<rparr>))"

fun broadcast :: "channel \<Rightarrow> message \<Rightarrow> int list \<Rightarrow> channel" where
  "broadcast ch msg [] = ch"
| "broadcast ch msg (i # is) = broadcast (send ch msg (Client i)) msg is"

section \<open>FedDynClient (feddyn.py, lines 66 to 177)\<close>

text \<open>
  \<open>n_examples\<close> is \<^verbatim>\<open>train_set.tensors[0].shape[0]\<close>, the number of examples the
  client holds; \<open>batches\<close> are the minibatches that iterating the loader yields, so
  that \<^verbatim>\<open>len(train_set)\<close> in \<^verbatim>\<open>fit\<close> is their number.
\<close>

record 'b train_set =
  n_examples :: nat
  batches :: "'b list"

record ('o, 'b) client =
  index :: int
  train_set :: "'b train_set"
  alpha :: real
  local_epochs :: int
  weight_decay :: real
  model :: "module option"
  weight :: "real option"
  prev_grads :: "real list option"
  optimizer :: "'o option"

text \<open>
  The penalty of dynamic regularisation as the loss graph holds it: the coefficient, the
  flattened current parameters (attached to the graph or not) and the detached factor
  \<^verbatim>\<open>-server_params + prev_grads\<close>.
\<close>

record penalty_term =
  coef :: real
  curr_params :: flat
  factor :: "real list"

text \<open>
  What \<^verbatim>\<open>fit\<close> takes from its collaborators (spec, section 6): the optimizer
  configurator, here \<open>make_optimizer\<close> of the model and the overriding weight decay,
  giving optimizer and scheduler as one state; the forward pass and the task loss as
  \<open>task_loss\<close>; \<^verbatim>\<open>zero_grad\<close>, \<^verbatim>\<open>backward\<close>, gradient clipping and
  \<^verbatim>\<open>optimizer.step\<close> as \<open>backward_step\<close>, which sees the loss through the batch and
  the penalty term and returns the optimizer state and the model after the step; and
  \<^verbatim>\<open>scheduler.step\<close>.
\<close>

record ('o, 'b) trainer =
  make_optimizer :: "module \<Rightarrow> real \<Rightarrow> 'o"
  task_loss :: "module \<Rightarrow> 'b \<Rightarrow> real"
  backward_step :: "'o \<Rightarrow> module \<Rightarrow> 'b \<Rightarrow> penalty_term \<Rightarrow> 'o \<times> module"
  scheduler_step :: "'o \<Rightarrow> 'o"

definition receive_model ::
  "(module \<Rightarrow> state_dict \<Rightarrow> error + module) \<Rightarrow> channel \<Rightarrow> ('o, 'b) client
     \<Rightarrow> error + (channel \<times> ('o, 'b) client)" where
  "receive_model safe_load_state_dict ch c =
     bindE (receive ch (Client (index c)) Server ''model'') (\<lambda>(msg, ch').
       case payload msg of
         Models mdl cld_mdl \<Rightarrow>
           (case model c of
              None \<Rightarrow>
                (case get_all_params_of mdl True of
                   None \<Rightarrow> Inl TypeError
                 | Some f \<Rightarrow> Inr (ch', c\<lparr>model := Some mdl, prev_grads := Some (zeros_like f)\<rparr>))
            | Some m \<Rightarrow>
                bindE (safe_load_state_dict m (state_dict_of cld_mdl))
                  (\<lambda>m'. Inr (ch', c\<lparr>model := Some m'\<rparr>)))
       | _ \<Rightarrow> Inl TypeError)"

definition receive_weights :: "channel \<Rightarrow> ('o, 'b) client \<Rightarrow> error + (channel \<times> ('o, 'b) client)" where
  "receive_weights ch c =
     bindE (receive ch (Client (index c)) Server ''weight'') (\<lambda>(msg, ch').
       case payload msg of
         Weight w \<Rightarrow> Inr (ch', c\<lparr>weight := Some w\<rparr>)
       | Count n \<Rightarrow> Inr (ch', c\<lparr>weight := Some (real n)\<rparr>)
       | _ \<Rightarrow> Inl TypeError)"

definition send_weight :: "channel \<Rightarrow> ('o, 'b) client \<Rightarrow> channel" where
  "send_weight ch c =
     send ch \<lparr> payload = Count (n_examples (train_set c)), msg_type = ''weight'',
               sender = Client (index c) \<rparr> Server"

definition send_model :: "channel \<Rightarrow> ('o, 'b) client \<Rightarrow> channel" where
  "send_model ch c =
     send (send ch \<lparr> payload = ClientModel (model c), msg_type = ''model'',
                      sender = Client (index c) \<rparr> Server)
          \<lparr> payload = Grads (prev_grads c), msg_type = ''grads'',
            sender = Client (index c) \<rparr> Server"

definition set_requires_grad :: "module \<Rightarrow> module" where
  "set_requires_grad m =
     m\<lparr>named_parameters := map (\<lambda>(k, p). (k, p\<lparr>requires_grad := True\<rparr>)) (named_parameters m)\<rparr>"

text \<open>One pass of the body of the inner loop of \<^verbatim>\<open>fit\<close> (lines 149 to 166).\<close>

definition fit_minibatch ::
  "('o, 'b) trainer \<Rightarrow> real \<Rightarrow> real list \<Rightarrow> real list option \<Rightarrow> 'o \<times> module \<times> real \<Rightarrow> 'b
     \<Rightarrow> error + ('o \<times> module \<times> real)" where
  "fit_minibatch tr alpha_coef_adpt server_params pgrads st b =
     (case st of (opt, m, running_loss) \<Rightarrow>
        (let loss = task_loss tr m b in
         case get_all_params_of m False of
           None \<Rightarrow> Inl AttributeError
         | Some cur \<Rightarrow>
             (case pgrads of
                None \<Rightarrow> Inl TypeError
              | Some pg \<Rightarrow>
                  bindE (vec_zip (+) (vec_neg server_params) pg) (\<lambda>fac.
                  bindE (vec_zip (*) (elems cur) fac) (\<lambda>prods.
                    (let penalty = alpha_coef_adpt * sum_list prods;
                         loss' = loss + penalty;
                         (opt', m') = backward_step tr opt m b
                            \<lparr> coef = alpha_coef_adpt, curr_params = cur, factor = fac \<rparr>
                     in Inr (opt', m', running_loss + loss')))))))"

fun fit_batches ::
  "('o, 'b) trainer \<Rightarrow> real \<Rightarrow> real list \<Rightarrow> real list option \<Rightarrow> 'o \<times> module \<times> real \<Rightarrow> 'b list
     \<Rightarrow> error + ('o \<times> module \<times> real)" where
  "fit_batches tr a sp pg st [] = Inr st"
| "fit_batches tr a sp pg st (b # bs) =
     bindE (fit_minibatch tr a sp pg st b) (\<lambda>st'. fit_batches tr a sp pg st' bs)"

fun fit_epochs ::
  "('o, 'b) trainer \<Rightarrow> real \<Rightarrow> real list \<Rightarrow> real list option \<Rightarrow> nat \<Rightarrow> 'b list
     \<Rightarrow> 'o \<times> module \<times> real \<Rightarrow> error + ('o \<times> module \<times> real)" where
  "fit_epochs tr a sp pg 0 bs st = Inr st"
| "fit_epochs tr a sp pg (Suc n) bs st =
     bindE (fit_batches tr a sp pg st bs)
       (\<lambda>(opt, m, running_loss). fit_epochs tr a sp pg n bs (scheduler_step tr opt, m, running_loss))"

text \<open>
  The end of \<^verbatim>\<open>fit\<close> (lines 170 to 177): the surrogate is updated from the detached
  snapshots, and the running loss is averaged.
\<close>

definition fit_finish ::
  "('o, 'b) client \<Rightarrow> int \<Rightarrow> real \<Rightarrow> flat \<Rightarrow> 'o \<times> module \<times> real
     \<Rightarrow> error + (('o, 'b) client \<times> real)" where
  "fit_finish c epochs alpha_coef_adpt server_params st =
     (case st of (opt', m', running_loss) \<Rightarrow>
        (case get_all_params_of m' True of
           None \<Rightarrow> Inl AttributeError
         | Some cur \<Rightarrow>
             bindE (vec_zip (-) (elems server_params) (elems cur)) (\<lambda>d.
               case prev_grads c of
                 None \<Rightarrow> Inl TypeError
               | Some pg \<Rightarrow>
                   bindE (vec_zip (+) pg (vec_scale alpha_coef_adpt d)) (\<lambda>pg'.
                     if epochs * int (length (batches (train_set c))) = 0
                     then Inl ZeroDivisionError
                     else Inr (c\<lparr>model := Some m', prev_grads := Some pg', optimizer := Some opt'\<rparr>,
                               running_loss /
                                 real_of_int (epochs * int (length (batches (train_set c)))))))))"

definition fit :: "('o, 'b) trainer \<Rightarrow> ('o, 'b) client \<Rightarrow> int \<Rightarrow> error + (('o, 'b) client \<times> real)" where
  "fit tr c override_local_epochs =
     (let epochs = (if override_local_epochs > 0 then override_local_epochs else local_epochs c) in
      case model c of
        None \<Rightarrow> Inl AttributeError
      | Some m0 \<Rightarrow>
          (case weight c of
             None \<Rightarrow> Inl TypeError
           | Some w \<Rightarrow>
               if w = 0 then Inl NonFinite
               else
                 (let alpha_coef_adpt = alpha c / w in
                  case get_all_params_of m0 True of
                    None \<Rightarrow> Inl AttributeError
                  | Some server_params \<Rightarrow>
                      (let m1 = set_requires_grad m0;
                           opt = (case optimizer c of
                                    None \<Rightarrow> make_optimizer tr m1 (alpha_coef_adpt + weight_decay c)
                                  | Some opt0 \<Rightarrow> opt0)
                       in bindE (fit_epochs tr alpha_coef_adpt (elems server_params) (prev_grads c)
                                   (nat epochs) (batches (train_set c)) (opt, m1, 0))
                            (fit_finish c epochs alpha_coef_adpt server_params)))))"


section \<open>FedDynServer (feddyn.py, lines 180 to 249)\<close>

text \<open>
  The server together with what it reaches through \<^verbatim>\<open>self.clients\<close> and
  \<^verbatim>\<open>self.channel\<close>. \<open>server_model\<close> is \<^verbatim>\<open>self.model\<close> and \<open>lr\<close> is
  \<^verbatim>\<open>self.hyper_params.lr\<close>.
\<close>

record ('o, 'b) feddyn_server =
  chan :: channel
  clients :: "('o, 'b) client list"
  server_model :: module
  cld_mdl :: module
  lr :: real
  weighted :: bool

text \<open>
  Modelled from the spec: \<^verbatim>\<open>Server.n_clients\<close> belongs to the base class, which is not
  among the sources; the spec (section 4.4) names it \<open>N_clients\<close>, the number of clients
  of the server.
\<close>

definition n_clients :: "('o, 'b) feddyn_server \<Rightarrow> nat" where
  "n_clients srv = length (clients srv)"

definition broadcast_model :: "('o, 'b) feddyn_server \<Rightarrow> ('o, 'b) client list \<Rightarrow> ('o, 'b) feddyn_server" where
  "broadcast_model srv eligible =
     srv\<lparr>chan := broadcast (chan srv)
              \<lparr> payload = Models (server_model srv) (cld_mdl srv), msg_type = ''model'',
                sender = Server \<rparr> (map index eligible)\<rparr>"

fun send_weight_all :: "channel \<Rightarrow> ('o, 'b) client list \<Rightarrow> channel" where
  "send_weight_all ch [] = ch"
| "send_weight_all ch (c # cs) = send_weight_all (send_weight ch c) cs"

definition as_number :: "payload \<Rightarrow> error + real" where
  "as_number p = (case p of Count n \<Rightarrow> Inr (real n) | Weight w \<Rightarrow> Inr w | _ \<Rightarrow> Inl TypeError)"

fun receive_weight_payloads :: "channel \<Rightarrow> ('o, 'b) client list \<Rightarrow> error + (real list \<times> channel)" where
  "receive_weight_payloads ch [] = Inr ([], ch)"
| "receive_weight_payloads ch (c # cs) =
     bindE (receive ch Server (Client (index c)) ''weight'') (\<lambda>(msg, ch').
     bindE (as_number (payload msg)) (\<lambda>x.
     bindE (receive_weight_payloads ch' cs) (\<lambda>(xs, ch''). Inr (x # xs, ch''))))"

text \<open>
  \<^verbatim>\<open>weights / np.sum(weights) * self.n_clients\<close> on a numpy array: a zero sum gives
  NaN for every entry of a non-empty array and raises nothing.
\<close>

definition normalize_weights :: "real list \<Rightarrow> nat \<Rightarrow> error + real list" where
  "normalize_weights weights n =
     (if weights \<noteq> [] \<and> sum_list weights = 0 then Inl NonFinite
      else Inr (map (\<lambda>w. w / sum_list weights * real n) weights))"

fun send_normalized :: "channel \<Rightarrow> real list \<Rightarrow> ('o, 'b) client list \<Rightarrow> error + channel" where
  "send_normalized ch weights [] = Inr ch"
| "send_normalized ch [] (c # cs) = Inl IndexError"
| "send_normalized ch (w # weights) (c # cs) =
     send_normalized
       (send ch \<lparr> payload = Weight w, msg_type = ''weight'', sender = Server \<rparr> (Client (index c)))
       weights cs"

fun receive_weights_all ::
  "channel \<Rightarrow> ('o, 'b) client list \<Rightarrow> error + (channel \<times> ('o, 'b) client list)" where
  "receive_weights_all ch [] = Inr (ch, [])"
| "receive_weights_all ch (c # cs) =
     bindE (receive_weights ch c) (\<lambda>(ch', c').
     bindE (receive_weights_all ch' cs) (\<lambda>(ch'', cs'). Inr (ch'', c' # cs')))"

text \<open>The weight computation of \<^verbatim>\<open>FedDynServer.fit\<close> (lines 203 to 219).\<close>

definition weight_exchange :: "('o, 'b) feddyn_server \<Rightarrow> error + ('o, 'b) feddyn_server" where
  "weight_exchange srv =
     (let ch1 = send_weight_all (chan srv) (clients srv) in
      bindE (receive_weight_payloads ch1 (clients srv)) (\<lambda>(weights, ch2).
      bindE (normalize_weights weights (n_clients srv)) (\<lambda>weights'.
      bindE (send_normalized ch2 weights' (clients srv)) (\<lambda>ch3.
      bindE (receive_weights_all ch3 (clients srv)) (\<lambda>(ch4, cs').
        Inr (srv\<lparr>chan := ch4, clients := cs'\<rparr>))))))"

text \<open>
  \<^verbatim>\<open>FedDynServer.fit\<close>: the weight computation, then \<^verbatim>\<open>super().fit\<close>, the round loop
  of the base class, which is a collaborator of this code and a parameter here.
\<close>

definition FedDynServer_fit ::
  "(('o, 'b) feddyn_server \<Rightarrow> int \<Rightarrow> real \<Rightarrow> error + ('o, 'b) feddyn_server)
     \<Rightarrow> ('o, 'b) feddyn_server \<Rightarrow> int \<Rightarrow> real \<Rightarrow> error + ('o, 'b) feddyn_server" where
  "FedDynServer_fit super_fit srv n_rounds eligible_perc =
     bindE (weight_exchange srv) (\<lambda>srv'. super_fit srv' n_rounds eligible_perc)"

fun receive_grads ::
  "channel \<Rightarrow> ('o, 'b) client list \<Rightarrow> real list option \<Rightarrow> nat
     \<Rightarrow> error + (real list option \<times> nat \<times> channel)" where
  "receive_grads ch [] avg_grad grad_count = Inr (avg_grad, grad_count, ch)"
| "receive_grads ch (c # cs) avg_grad grad_count =
     bindE (receive ch Server (Client (index c)) ''grads'') (\<lambda>(msg, ch').
       case payload msg of
         Grads None \<Rightarrow> receive_grads ch' cs avg_grad grad_count
       | Grads (Some pg) \<Rightarrow>
           (case avg_grad of
              None \<Rightarrow> receive_grads ch' cs (Some pg) (grad_count + 1)
            | Some a \<Rightarrow>
                bindE (vec_zip (+) a pg) (\<lambda>a'. receive_grads ch' cs (Some a') (grad_count + 1)))
       | _ \<Rightarrow> Inl AttributeError)"

text \<open>
  \<^verbatim>\<open>FedDynServer.aggregate\<close>. \<^verbatim>\<open>self._get_client_weights\<close> (base class) and
  \<^verbatim>\<open>aggregate_models\<close> (\<^verbatim>\<open>fluke/utils/model.py\<close>) are not among the sources and are
  parameters; \<open>aggregate_models\<close> stands for the call followed by \<^verbatim>\<open>.state_dict()\<close>.
\<close>

definition FedDynServer_aggregate ::
  "(('o, 'b) feddyn_server \<Rightarrow> ('o, 'b) client list \<Rightarrow> error + real list)
     \<Rightarrow> (module \<Rightarrow> module list \<Rightarrow> real list \<Rightarrow> real \<Rightarrow> error + state_dict)
     \<Rightarrow> ('o, 'b) feddyn_server \<Rightarrow> ('o, 'b) client list \<Rightarrow> module list
     \<Rightarrow> error + ('o, 'b) feddyn_server" where
  "FedDynServer_aggregate get_client_weights aggregate_models srv eligible client_models =
     bindE (get_client_weights srv eligible) (\<lambda>weights.
     bindE (aggregate_models (server_model srv) client_models weights (lr srv)) (\<lambda>agg_model_sd.
     bindE (receive_grads (chan srv) eligible None 0) (\<lambda>(avg_grad, grad_count, ch').
       (let avg_grad' = (if grad_count > 0
                         then map_option (map (\<lambda>x. x / real grad_count)) avg_grad
                         else avg_grad)
        in bindE (load_state_dict True (server_model srv) agg_model_sd) (\<lambda>model'.
             case get_all_params_of model' True of
               None \<Rightarrow> Inl AttributeError
             | Some f \<Rightarrow>
                 (case avg_grad' of
                    None \<Rightarrow> Inl AttributeError
                  | Some g \<Rightarrow>
                      bindE (vec_zip (+) (elems f) g) (\<lambda>v.
                      bindE (load_all_params (cld_mdl srv) (Some v)) (\<lambda>cld'.
                        Inr (srv\<lparr>chan := ch', server_model := model', cld_mdl := cld'\<rparr>)))))))))"

section \<open>FedAVGMServer (fedavgm.py)\<close>

text \<open>
  \<^verbatim>\<open>STATE_DICT_KEYS_TO_IGNORE\<close> is a constant of \<^verbatim>\<open>fluke/utils/model.py\<close>, which is
  not among the sources: the tuple of suffixes is a parameter \<open>ign\<close> of everything that
  reads it. \<^verbatim>\<open>key.endswith(tuple)\<close> holds when one member of the tuple is a suffix of
  the key.
\<close>

definition endswith :: "string \<Rightarrow> string list \<Rightarrow> bool" where
  "endswith key ign = list_ex (\<lambda>suf. suffix suf key) ign"

text \<open>
  Modelled from the spec: \<^verbatim>\<open>diff_model\<close> of \<^verbatim>\<open>fluke/utils/model.py\<close> is not among
  the sources. The spec (section 4.1) gives: for every key not in the ignore set,
  \<open>reference[key] - client[key]\<close>, ignored keys omitted; and (section 7) a mismatch of
  key sets or shapes is fatal.
\<close>

definition diff_model :: "string list \<Rightarrow> state_dict \<Rightarrow> state_dict \<Rightarrow> error + state_dict" where
  "diff_model ign model_dict1 model_dict2 =
     (if set (map fst model_dict1) \<noteq> set (map fst model_dict2) then Inl AssertionError
      else mapE (\<lambda>(key, t1).
                   case map_of model_dict2 key of
                     None \<Rightarrow> Inl KeyError
                   | Some t2 \<Rightarrow> bindE (tensor_zip (-) t1 t2) (\<lambda>d. Inr (key, d)))
                (filter (\<lambda>(key, t1). \<not> endswith key ign) model_dict1))"

record avgm_server =
  avgm_model :: module
  momentum :: real
  momentum_vector :: "state_dict option"

text \<open>The loop over the clients' differences for one key (lines 75 to 79).\<close>

fun avg_clients ::
  "string \<Rightarrow> real list \<Rightarrow> nat \<Rightarrow> state_dict list \<Rightarrow> state_dict \<Rightarrow> error + state_dict" where
  "avg_clients key weights i [] avg_model_sd = Inr avg_model_sd"
| "avg_clients key weights i (client_diff # rest) avg_model_sd =
     (if i \<ge> length weights then Inl IndexError
      else (case map_of client_diff key of
              None \<Rightarrow> Inl KeyError
            | Some d \<Rightarrow>
                (case map_of avg_model_sd key of
                   None \<Rightarrow>
                     avg_clients key weights (i + 1) rest
                       (AList.update key (tensor_scale (weights ! i) d) avg_model_sd)
                 | Some a \<Rightarrow>
                     bindE (tensor_zip (+) a (tensor_scale (weights ! i) d)) (\<lambda>a'.
                       avg_clients key weights (i + 1) rest (AList.update key a' avg_model_sd)))))"

text \<open>The loop over the keys of the global state (lines 71 to 79).\<close>

fun avg_keys ::
  "string list \<Rightarrow> state_dict \<Rightarrow> state_dict list \<Rightarrow> real list \<Rightarrow> string list \<Rightarrow> state_dict
     \<Rightarrow> error + state_dict" where
  "avg_keys ign model_sd clients_diff weights [] avg_model_sd = Inr avg_model_sd"
| "avg_keys ign model_sd clients_diff weights (key # keys) avg_model_sd =
     (if endswith key ign then
        (case map_of model_sd key of
           None \<Rightarrow> Inl KeyError
         | Some t \<Rightarrow>
             avg_keys ign model_sd clients_diff weights keys (AList.update key t avg_model_sd))
      else bindE (avg_clients key weights 0 clients_diff avg_model_sd)
             (avg_keys ign model_sd clients_diff weights keys))"

text \<open>The update of the momentum vector when there is one (lines 84 to 87).\<close>

fun update_momentum ::
  "real \<Rightarrow> state_dict \<Rightarrow> string list \<Rightarrow> state_dict \<Rightarrow> error + state_dict" where
  "update_momentum mu avg_model_sd [] mv = Inr mv"
| "update_momentum mu avg_model_sd (key # keys) mv =
     (case map_of mv key of
        None \<Rightarrow> Inl KeyError
      | Some mt \<Rightarrow>
          (case map_of avg_model_sd key of
             None \<Rightarrow> Inl KeyError
           | Some a \<Rightarrow>
               bindE (tensor_zip (+) (tensor_scale mu mt) a) (\<lambda>t.
                 update_momentum mu avg_model_sd keys (AList.update key t mv))))"

text \<open>The update of the named parameters (lines 89 to 90).\<close>

fun apply_momentum :: "state_dict \<Rightarrow> (string \<times> param) list \<Rightarrow> error + (string \<times> param) list" where
  "apply_momentum mv [] = Inr []"
| "apply_momentum mv ((key, p) # rest) =
     (case map_of mv key of
        None \<Rightarrow> Inl KeyError
      | Some mt \<Rightarrow>
          bindE (tensor_zip (-) (val p) mt) (\<lambda>t.
          bindE (apply_momentum mv rest) (\<lambda>rest'. Inr ((key, p\<lparr>val := t\<rparr>) # rest'))))"

text \<open>
  \<^verbatim>\<open>FedAVGMServer.aggregate\<close>. \<open>clients_sd\<close> is what \<^verbatim>\<open>self.get_client_models(eligible)\<close>
  returns, the state of each eligible client's model, and \<open>weights\<close> what
  \<^verbatim>\<open>self._get_client_weights(eligible)\<close> returns; both belong to the base class.
\<close>

definition FedAVGM_aggregate ::
  "string list \<Rightarrow> avgm_server \<Rightarrow> state_dict list \<Rightarrow> real list \<Rightarrow> error + avgm_server" where
  "FedAVGM_aggregate ign srv clients_sd weights =
     (let model_sd = state_dict_of (avgm_model srv) in
      bindE (mapE (diff_model ign model_sd) clients_sd) (\<lambda>clients_diff.
      bindE (avg_keys ign model_sd clients_diff weights (map fst model_sd) []) (\<lambda>avg_model_sd.
      bindE (case momentum_vector srv of
               None \<Rightarrow> Inr avg_model_sd
             | Some mv \<Rightarrow> update_momentum (momentum srv) avg_model_sd (map fst model_sd) mv)
        (\<lambda>mv'.
      bindE (apply_momentum mv' (named_parameters (avgm_model srv))) (\<lambda>ps'.
        Inr (srv\<lparr>avgm_model := (avgm_model srv)\<lparr>named_parameters := ps'\<rparr>,
                  momentum_vector := Some mv'\<rparr>))))))"

text \<open>A sequence of aggregation rounds, each with its clients' states and weights.\<close>

fun FedAVGM_rounds ::
  "string list \<Rightarrow> avgm_server \<Rightarrow> (state_dict list \<times> real list) list \<Rightarrow> error + avgm_server" where
  "FedAVGM_rounds ign srv [] = Inr srv"
| "FedAVGM_rounds ign srv ((clients_sd, weights) # rounds) =
     bindE (FedAVGM_aggregate ign srv clients_sd weights) (\<lambda>srv'. FedAVGM_rounds ign srv' rounds)"

section \<open>Collaborators of the aggregation that are not among the sources\<close>

text \<open>
  Modelled from the spec: \<^verbatim>\<open>Server._get_client_weights\<close> belongs to the base class
  \<^verbatim>\<open>fluke/server.py\<close>, which is not among the sources; both servers inherit it and
  neither overrides it. The spec (section 4.2, step 2) gives the weights it returns:
  proportional to the example counts of the eligible clients in weighted mode, else
  uniform \<open>1/N\<close>; a zero total and an empty eligible set are fatal (section 7).
\<close>

definition get_client_weights ::
  "('o, 'b) feddyn_server \<Rightarrow> ('o, 'b) client list \<Rightarrow> error + real list" where
  "get_client_weights srv eligible =
     (if weighted srv then
        (let num_ex = map (\<lambda>c. n_examples (train_set c)) eligible;
             tot_ex = sum_list num_ex
         in if tot_ex = 0 then Inl ZeroDivisionError
            else Inr (map (\<lambda>n. real n / real tot_ex) num_ex))
      else if eligible = [] then Inl ZeroDivisionError
      else Inr (replicate (length eligible) (1 / real (length eligible))))"

text \<open>
  Modelled from the spec: \<^verbatim>\<open>aggregate_models\<close> of \<^verbatim>\<open>fluke/utils/model.py\<close> is not
  among the sources. The spec (section 4.4, step 4) gives
  \<open>agg = model + lr * \<Sum> weight\<^sub>i * (client_model\<^sub>i - model)\<close> per parameter; keys to
  ignore are copied from the target (section 3); a mismatch of keys or shapes, and a
  weight list of another length than the models, are fatal (section 7).
\<close>

definition aggregate_key ::
  "string list \<Rightarrow> module list \<Rightarrow> real list \<Rightarrow> real \<Rightarrow> string \<times> tensor
     \<Rightarrow> error + (string \<times> tensor)" where
  "aggregate_key ign models weights eta kt =
     (case kt of (key, t) \<Rightarrow>
        if endswith key ign then Inr (key, t)
        else bindE (mapE (\<lambda>cm. case map_of (state_dict_of cm) key of
                                   None \<Rightarrow> Inl KeyError
                                 | Some ct \<Rightarrow> if shape ct = shape t then Inr ct
                                              else Inl RuntimeError) models)
               (\<lambda>cts. Inr (key,
                  \<lparr> shape = shape t,
                    data = map (\<lambda>e. data t ! e +
                                     eta * (\<Sum>(w, ct)\<leftarrow>zip weights cts.
                                              w * (data ct ! e - data t ! e)))
                             [0..<length (data t)] \<rparr>)))"

definition aggregate_models ::
  "string list \<Rightarrow> module \<Rightarrow> module list \<Rightarrow> real list \<Rightarrow> real \<Rightarrow> error + state_dict" where
  "aggregate_models ign target_model models weights eta =
     (if length weights \<noteq> length models then Inl IndexError
      else mapE (aggregate_key ign models weights eta) (state_dict_of target_model))"

section \<open>The round loop of the base class\<close>

text \<open>
  Modelled from the spec: \<^verbatim>\<open>Server.fit\<close> of the base class (\<^verbatim>\<open>fluke/server.py\<close>) and
  the local update of a client are not among the sources. The spec (section 2, control
  flow; section 4.3, step 3 to 5; section 4.4, steps 2 to 4) gives the round: the server
  broadcasts the global and the cloud model to the eligible clients; each eligible client
  receives the model, trains, and sends back its model and its surrogate; the server
  collects the client models and aggregates; and so on for the given number of rounds,
  numbered from one. Which clients are eligible in a round, the loader of a received
  state, the trainer and the two collaborators of the aggregation are parameters.
\<close>

record ('o, 'b) collaborators =
  safe_load_state_dict :: "module \<Rightarrow> state_dict \<Rightarrow> error + module"
  the_trainer :: "('o, 'b) trainer"
  client_weights :: "('o, 'b) feddyn_server \<Rightarrow> ('o, 'b) client list \<Rightarrow> error + real list"
  agg_models :: "module \<Rightarrow> module list \<Rightarrow> real list \<Rightarrow> real \<Rightarrow> error + state_dict"
  eligible_in :: "nat \<Rightarrow> int \<Rightarrow> bool"

definition local_update ::
  "('o, 'b) collaborators \<Rightarrow> channel \<Rightarrow> ('o, 'b) client \<Rightarrow> error + (channel \<times> ('o, 'b) client)" where
  "local_update co ch c =
     bindE (receive_model (safe_load_state_dict co) ch c) (\<lambda>(ch1, c1).
     bindE (fit (the_trainer co) c1 0) (\<lambda>(c2, loss).
       Inr (send_model ch1 c2, c2)))"

fun local_updates ::
  "('o, 'b) collaborators \<Rightarrow> (int \<Rightarrow> bool) \<Rightarrow> channel \<Rightarrow> ('o, 'b) client list
     \<Rightarrow> error + (channel \<times> ('o, 'b) client list)" where
  "local_updates co sel ch [] = Inr (ch, [])"
| "local_updates co sel ch (c # cs) =
     (if sel (index c)
      then bindE (local_update co ch c) (\<lambda>(ch', c').
           bindE (local_updates co sel ch' cs) (\<lambda>(ch'', cs'). Inr (ch'', c' # cs')))
      else bindE (local_updates co sel ch cs) (\<lambda>(ch'', cs'). Inr (ch'', c # cs')))"

fun receive_client_models ::
  "channel \<Rightarrow> ('o, 'b) client list \<Rightarrow> error + (module list \<times> channel)" where
  "receive_client_models ch [] = Inr ([], ch)"
| "receive_client_models ch (c # cs) =
     bindE (receive ch Server (Client (index c)) ''model'') (\<lambda>(msg, ch').
       case payload msg of
         ClientModel (Some m) \<Rightarrow>
           bindE (receive_client_models ch' cs) (\<lambda>(ms, ch''). Inr (m # ms, ch''))
       | ClientModel None \<Rightarrow> Inl AttributeError
       | _ \<Rightarrow> Inl TypeError)"

definition feddyn_round ::
  "('o, 'b) collaborators \<Rightarrow> nat \<Rightarrow> ('o, 'b) feddyn_server \<Rightarrow> error + ('o, 'b) feddyn_server" where
  "feddyn_round co r srv =
     (let srv1 = broadcast_model srv (filter (\<lambda>c. eligible_in co r (index c)) (clients srv)) in
      bindE (local_updates co (eligible_in co r) (chan srv1) (clients srv1)) (\<lambda>(ch2, cs2).
      bindE (receive_client_models ch2 (filter (\<lambda>c. eligible_in co r (index c)) cs2))
        (\<lambda>(client_models, ch3).
           FedDynServer_aggregate (client_weights co) (agg_models co)
             (srv1\<lparr>chan := ch3, clients := cs2\<rparr>)
             (filter (\<lambda>c. eligible_in co r (index c)) cs2) client_models)))"

fun feddyn_rounds ::
  "('o, 'b) collaborators \<Rightarrow> nat \<Rightarrow> nat \<Rightarrow> ('o, 'b) feddyn_server
     \<Rightarrow> error + ('o, 'b) feddyn_server" where
  "feddyn_rounds co r 0 srv = Inr srv"
| "feddyn_rounds co r (Suc n) srv =
     bindE (feddyn_round co r srv) (feddyn_rounds co (Suc r) n)"

definition Server_fit ::
  "('o, 'b) collaborators \<Rightarrow> ('o, 'b) feddyn_server \<Rightarrow> int \<Rightarrow> real
     \<Rightarrow> error + ('o, 'b) feddyn_server" where
  "Server_fit co srv n_rounds eligible_perc = feddyn_rounds co 1 (nat n_rounds) srv"

section \<open>Example inputs\<close>

text \<open>
  A model with a two-by-two weight, a bias, a frozen embedding and one buffer; and a model
  whose only parameter is frozen.
\<close>

definition example_module :: module where
  "example_module =
     \<lparr> named_parameters =
         [(''fc.weight'', \<lparr> val = \<lparr> shape = [2, 2], data = [1, 2, 3, 4] \<rparr>, requires_grad = True \<rparr>),
          (''emb.weight'', \<lparr> val = \<lparr> shape = [3], data = [7, 8, 9] \<rparr>, requires_grad = False \<rparr>),
          (''fc.bias'', \<lparr> val = \<lparr> shape = [2], data = [5, 6] \<rparr>, requires_grad = True \<rparr>)],
       named_buffers = [(''bn.running_mean'', \<lparr> shape = [2], data = [0, 0] \<rparr>)] \<rparr>"

definition frozen_module :: module where
  "frozen_module =
     \<lparr> named_parameters =
         [(''emb.weight'', \<lparr> val = \<lparr> shape = [3], data = [7, 8, 9] \<rparr>, requires_grad = False \<rparr>)],
       named_buffers = [] \<rparr>"

definition empty_channel :: channel where
  "empty_channel = \<lparr> pending = [], history = [] \<rparr>"

definition example_client :: "int \<Rightarrow> nat \<Rightarrow> (unit, unit) client" where
  "example_client i n =
     \<lparr> index = i, train_set = \<lparr> n_examples = n, batches = [()] \<rparr>, alpha = 1 / 10,
       local_epochs = 1, weight_decay = 0, model = None, weight = None, prev_grads = None,
       optimizer = None \<rparr>"

text \<open>A trainer whose every step sets each element of each parameter to one.\<close>

definition example_trainer :: "(unit, unit) trainer" where
  "example_trainer =
     \<lparr> make_optimizer = (\<lambda>m wd. ()),
       task_loss = (\<lambda>m b. 0),
       backward_step = (\<lambda>opt m b pen.
          ((), m\<lparr>named_parameters :=
                   map (\<lambda>(k, p). (k, p\<lparr>val := \<lparr> shape = shape (val p),
                                                 data = map (\<lambda>x. 1) (data (val p)) \<rparr>\<rparr>))
                     (named_parameters m)\<rparr>)),
       scheduler_step = (\<lambda>opt. opt) \<rparr>"

text \<open>Three clients holding 10, 20 and 30 examples; and two clients holding 20 each.\<close>

definition example_server :: "(unit, unit) feddyn_server" where
  "example_server =
     \<lparr> chan = empty_channel,
       clients = [example_client 0 10, example_client 1 20, example_client 2 30],
       server_model = example_module, cld_mdl = example_module, lr = 1, weighted = True \<rparr>"

definition equal_server :: "(unit, unit) feddyn_server" where
  "equal_server = example_server\<lparr>clients := [example_client 0 20, example_client 1 20]\<rparr>"

text \<open>A model with one trainable parameter of two elements, both zero.\<close>

definition zero_module :: module where
  "zero_module =
     \<lparr> named_parameters =
         [(''w'', \<lparr> val = \<lparr> shape = [2], data = [0, 0] \<rparr>, requires_grad = True \<rparr>)],
       named_buffers = [] \<rparr>"

text \<open>A model with one trainable parameter holding 2 and 3.\<close>

definition small_module :: module where
  "small_module =
     \<lparr> named_parameters =
         [(''w'', \<lparr> val = \<lparr> shape = [2], data = [2, 3] \<rparr>, requires_grad = True \<rparr>)],
       named_buffers = [] \<rparr>"

section \<open>Notions used in the statements\<close>

text \<open>No message of type \<^verbatim>\<open>"weight"\<close> is pending.\<close>

definition weight_free :: "channel \<Rightarrow> bool" where
  "weight_free ch = list_all (\<lambda>(r, m). msg_type m \<noteq> ''weight'') (pending ch)"

text \<open>
  The messages of the weight computation of \<^verbatim>\<open>FedDynServer.fit\<close>, in the order of the
  four loops over \<^verbatim>\<open>self.clients\<close>.
\<close>

definition weight_events :: "('o, 'b) client list \<Rightarrow> event list" where
  "weight_events cs =
     map (\<lambda>c. Sent (Client (index c)) Server ''weight'') cs @
     map (\<lambda>c. Received (Client (index c)) Server ''weight'') cs @
     map (\<lambda>c. Sent Server (Client (index c)) ''weight'') cs @
     map (\<lambda>c. Received Server (Client (index c)) ''weight'') cs"

definition counts :: "('o, 'b) client list \<Rightarrow> nat list" where
  "counts cs = map (\<lambda>c. n_examples (train_set c)) cs"

definition is_weight_event :: "event \<Rightarrow> bool" where
  "is_weight_event e = (case e of Sent s r t \<Rightarrow> t = ''weight'' | Received s r t \<Rightarrow> t = ''weight'')"

text \<open>
  One client holding 10 examples, with the model holding 2 and 3 as global and as cloud
  model; and collaborators for it: the strict loader as \<^verbatim>\<open>safe_load_state_dict\<close>, the
  trainer above, the sample fractions and the weighted blend of the aggregation, and every
  client eligible in every round.
\<close>

definition solo_server :: "(unit, unit) feddyn_server" where
  "solo_server =
     \<lparr> chan = empty_channel, clients = [example_client 0 10],
       server_model = small_module, cld_mdl = small_module, lr = 1, weighted = True \<rparr>"

definition solo_collaborators :: "(unit, unit) collaborators" where
  "solo_collaborators =
     \<lparr> safe_load_state_dict = load_state_dict False, the_trainer = example_trainer,
       client_weights = get_client_weights, agg_models = aggregate_models [],
       eligible_in = (\<lambda>r i. True) \<rparr>"

text \<open>The events that one round of that server exchanges with its client.\<close>

definition solo_round_events :: "event list" where
  "solo_round_events =
     [Sent Server (Client 0) ''model'', Received Server (Client 0) ''model'',
      Sent (Client 0) Server ''model'', Sent (Client 0) Server ''grads'',
      Received (Client 0) Server ''model'', Received (Client 0) Server ''grads'']"

text \<open>
  A channel \<open>ch'\<close> continues a channel \<open>ch\<close> without a weight message: its history
  is that of \<open>ch\<close> followed by events that are not of type \<^verbatim>\<open>"weight"\<close>.
\<close>

definition quiet_extension :: "channel \<Rightarrow> channel \<Rightarrow> bool" where
  "quiet_extension ch ch' =
     (prefix (history ch) (history ch') \<and>
      list_all (\<lambda>e. \<not> is_weight_event e) (drop (length (history ch)) (history ch')))"

text \<open>
  The training step changes values only: it keeps a well-formed model well-formed and
  keeps its names, shapes and \<^verbatim>\<open>requires_grad\<close> flags.
\<close>

definition keeps_arch :: "('o, 'b) trainer \<Rightarrow> bool" where
  "keeps_arch tr =
     (\<forall>opt m b pen. wf_module m \<longrightarrow>
        wf_module (snd (backward_step tr opt m b pen)) \<and>
        arch (snd (backward_step tr opt m b pen)) = arch m)"

text \<open>The number of elements of the trainable parameters, as the shapes give it.\<close>

definition flat_len :: "module \<Rightarrow> nat" where
  "flat_len m = sum_list (map (\<lambda>p. numel (val p)) (trainable m))"

text \<open>
  The named parameters with the values of the trainable ones replaced, in the order of
  enumeration, by consecutive slices of a vector.
\<close>

fun unflatten :: "real list \<Rightarrow> (string \<times> param) list \<Rightarrow> (string \<times> param) list" where
  "unflatten v [] = []"
| "unflatten v ((k, p) # rest) =
     (if requires_grad p
      then (k, p\<lparr>val := \<lparr> shape = shape (val p), data = take (length (data (val p))) v \<rparr>\<rparr>)
             # unflatten (drop (length (data (val p))) v) rest
      else (k, p) # unflatten v rest)"

text \<open>
  The message with which \<open>send_model\<close> reports a client's surrogate, and the surrogates
  the clients of a list hold, in order.
\<close>

definition grads_message :: "('o, 'b) client \<Rightarrow> party \<times> message" where
  "grads_message c =
     (Server, \<lparr> payload = Grads (prev_grads c), msg_type = ''grads'', sender = Client (index c) \<rparr>)"

definition reported_grads :: "('o, 'b) client list \<Rightarrow> real list list" where
  "reported_grads cs = List.map_filter prev_grads cs"

text \<open>The arithmetic mean of vectors of length \<open>n\<close>, element by element.\<close>

definition mean_vec :: "nat \<Rightarrow> real list list \<Rightarrow> real list" where
  "mean_vec n gs = map (\<lambda>i. (\<Sum>g\<leftarrow>gs. g ! i) / real (length gs)) [0..<n]"

text \<open>
  Two clients that have reported the surrogates \<open>[1, 1]\<close> and \<open>[3, 5]\<close> to a server
  whose global and cloud model hold 2 and 3.
\<close>

definition grads_clients :: "(unit, unit) client list" where
  "grads_clients =
     [(example_client 0 10)\<lparr>prev_grads := Some [1, 1]\<rparr>,
      (example_client 1 20)\<lparr>prev_grads := Some [3, 5]\<rparr>]"

definition grads_server :: "(unit, unit) feddyn_server" where
  "grads_server =
     \<lparr> chan = \<lparr> pending = map grads_message grads_clients, history = [] \<rparr>,
       clients = grads_clients, server_model = small_module, cld_mdl = small_module,
       lr = 1, weighted = True \<rparr>"



text \<open>
  The local training as the spec words it (section 4.3, step 4), for comparison with
  \<open>fit\<close>: for each local epoch, for each minibatch, the task loss of the current model
  on the batch, the flattened current trainable parameters still attached to the graph,
  the penalty \<open>alpha_coef * sum (curr_params * (prev_grads - server_params))\<close> added to the
  loss, then the backward step; the scheduler steps once per epoch. A pass records the
  model it started from, its batch and the loss it computed.
\<close>

record 'b pass =
  pass_model :: module
  pass_batch :: 'b
  pass_loss :: real

fun training_passes_epoch ::
  "('o, 'b) trainer \<Rightarrow> real \<Rightarrow> real list \<Rightarrow> real list \<Rightarrow> 'o \<times> module \<Rightarrow> 'b list
     \<Rightarrow> 'b pass list \<times> ('o \<times> module)" where
  "training_passes_epoch tr a sp pg st [] = ([], st)"
| "training_passes_epoch tr a sp pg st (b # bs) =
     (case st of (opt, m) \<Rightarrow>
        (let cur = \<lparr> elems = concat (map (\<lambda>p. data (val p)) (trainable m)), attached = True \<rparr>;
             penalty = a * sum_list (map2 (*) (elems cur) (map2 (-) pg sp));
             st' = backward_step tr opt m b
                     \<lparr> coef = a, curr_params = cur, factor = map2 (-) pg sp \<rparr>
         in (case training_passes_epoch tr a sp pg st' bs of
               (ps, st'') \<Rightarrow>
                 (\<lparr> pass_model = m, pass_batch = b, pass_loss = task_loss tr m b + penalty \<rparr> # ps,
                  st''))))"

fun training_passes ::
  "('o, 'b) trainer \<Rightarrow> real \<Rightarrow> real list \<Rightarrow> real list \<Rightarrow> nat \<Rightarrow> 'b list \<Rightarrow> 'o \<times> module
     \<Rightarrow> 'b pass list \<times> ('o \<times> module)" where
  "training_passes tr a sp pg 0 bs st = ([], st)"
| "training_passes tr a sp pg (Suc n) bs st =
     (case training_passes_epoch tr a sp pg st bs of
        (ps, (opt, m)) \<Rightarrow>
          (case training_passes tr a sp pg n bs (scheduler_step tr opt, m) of
             (ps', st') \<Rightarrow> (ps @ ps', st')))"

text \<open>
  A pass whose loss is the task loss plus the penalty computed from the flattened current
  parameters of its model, flattened without detaching.
\<close>

definition penalised_pass ::
  "('o, 'b) trainer \<Rightarrow> real \<Rightarrow> real list \<Rightarrow> real list \<Rightarrow> 'b pass \<Rightarrow> bool" where
  "penalised_pass tr a sp pg p =
     (\<exists>cur. get_all_params_of (pass_model p) False = Some cur \<and> attached cur \<and>
            length (elems cur) = length sp \<and>
            pass_loss p = task_loss tr (pass_model p) (pass_batch p) +
                          a * sum_list (map2 (*) (elems cur) (map2 (-) pg sp)))"

text \<open>A model with one trainable parameter holding 1 and 1.\<close>

definition ones_module :: module where
  "ones_module =
     \<lparr> named_parameters =
         [(''w'', \<lparr> val = \<lparr> shape = [2], data = [1, 1] \<rparr>, requires_grad = True \<rparr>)],
       named_buffers = [] \<rparr>"

text \<open>
  The server \<open>solo_server\<close> after its weight exchange, after the first round and after
  the second round.
\<close>

definition solo_exchanged :: "(unit, unit) feddyn_server" where
  "solo_exchanged =
     solo_server\<lparr>chan := \<lparr> pending = [], history = weight_events (clients solo_server) \<rparr>,
                   clients := [(example_client 0 10)\<lparr>weight := Some 1\<rparr>]\<rparr>"

definition solo_round1 :: "(unit, unit) feddyn_server" where
  "solo_round1 =
     \<lparr> chan = \<lparr> pending = [],
                 history = weight_events (clients solo_server) @ solo_round_events \<rparr>,
       clients = [(example_client 0 10)\<lparr>model := Some ones_module, weight := Some 1,
                    prev_grads := Some [1 / 10, 1 / 5], optimizer := Some ()\<rparr>],
       server_model = ones_module,
       cld_mdl = \<lparr> named_parameters =
                     [(''w'', \<lparr> val = \<lparr> shape = [2], data = [11 / 10, 6 / 5] \<rparr>,
                               requires_grad = True \<rparr>)],
                   named_buffers = [] \<rparr>,
       lr = 1, weighted = True \<rparr>"

definition solo_round2 :: "(unit, unit) feddyn_server" where
  "solo_round2 =
     \<lparr> chan = \<lparr> pending = [],
                 history = weight_events (clients solo_server) @ solo_round_events @
                           solo_round_events \<rparr>,
       clients = [(example_client 0 10)\<lparr>model := Some ones_module, weight := Some 1,
                    prev_grads := Some [11 / 100, 11 / 50], optimizer := Some ()\<rparr>],
       server_model = ones_module,
       cld_mdl = \<lparr> named_parameters =
                     [(''w'', \<lparr> val = \<lparr> shape = [2], data = [111 / 100, 61 / 50] \<rparr>,
                               requires_grad = True \<rparr>)],
                   named_buffers = [] \<rparr>,
       lr = 1, weighted = True \<rparr>"



text \<open>
  For \<^verbatim>\<open>FedAVGMServer\<close>: a tuple of suffixes to ignore, naming the statistics of batch
  normalisation; a server whose model has a weight and a buffer \<^verbatim>\<open>bn.running_mean\<close>; a
  server whose model has a parameter of the name \<^verbatim>\<open>running_mean\<close>; the state of one
  client for each; and the second server after one aggregation.
\<close>

definition avgm_ignore :: "string list" where
  "avgm_ignore = [''num_batches_tracked'', ''running_mean'', ''running_var'']"






text \<open>
  The momentum recurrence as the spec words it (sections 4.2 and 8), for comparison with
  \<^verbatim>\<open>FedAVGMServer.aggregate\<close>: the weighted diff of a round for a key,
  \<open>\<Sum> weight\<^sub>i * (global_state - client_state\<^sub>i)\<close>, element by element; the weighted
  diffs \<open>d\<^sub>1, \<dots>, d\<^sub>k\<close> of a sequence of rounds, each taken on the global state the
  round starts from; and \<open>\<Sum>\<^sub>j\<^sub>=\<^sub>1\<^sub>.\<^sub>.\<^sub>k \<mu>\<^sup>k\<^sup>-\<^sup>j d\<^sub>j\<close>, with the rounds counted from zero.
\<close>

definition weighted_diff :: "state_dict \<Rightarrow> state_dict list \<Rightarrow> real list \<Rightarrow> string \<Rightarrow> real list" where
  "weighted_diff global_sd clients_sd weights key =
     (case map_of global_sd key of
        None \<Rightarrow> []
      | Some g \<Rightarrow>
          map (\<lambda>e. \<Sum>(w, c)\<leftarrow>zip weights clients_sd.
                      w * (data g ! e - (case map_of c key of None \<Rightarrow> 0 | Some ct \<Rightarrow> data ct ! e)))
            [0..<length (data g)])"

fun round_diffs ::
  "string list \<Rightarrow> avgm_server \<Rightarrow> (state_dict list \<times> real list) list \<Rightarrow> string
     \<Rightarrow> real list list" where
  "round_diffs ign srv [] key = []"
| "round_diffs ign srv ((clients_sd, weights) # rounds) key =
     weighted_diff (state_dict_of (avgm_model srv)) clients_sd weights key #
     (case FedAVGM_aggregate ign srv clients_sd weights of
        Inl e \<Rightarrow> []
      | Inr srv' \<Rightarrow> round_diffs ign srv' rounds key)"

definition momentum_sum :: "real \<Rightarrow> real list list \<Rightarrow> nat \<Rightarrow> real list" where
  "momentum_sum mu ds n =
     map (\<lambda>e. \<Sum>j<length ds. mu ^ (length ds - 1 - j) * (ds ! j ! e)) [0..<n]"

text \<open>
  The example of the spec (section 8): momentum 0.9 and one scalar parameter holding 10;
  the client of the first round holds 8 and that of the second round holds 5, so that the
  weighted diffs of the two rounds are 2 and 3.
\<close>

definition scalar_server :: avgm_server where
  "scalar_server =
     \<lparr> avgm_model =
         \<lparr> named_parameters =
             [(''w'', \<lparr> val = \<lparr> shape = [1], data = [10] \<rparr>, requires_grad = True \<rparr>)],
           named_buffers = [] \<rparr>,
       momentum = 9 / 10, momentum_vector = None \<rparr>"

definition scalar_round1 :: "state_dict list \<times> real list" where
  "scalar_round1 = ([[(''w'', \<lparr> shape = [1], data = [8] \<rparr>)]], [1])"

definition scalar_round2 :: "state_dict list \<times> real list" where
  "scalar_round2 = ([[(''w'', \<lparr> shape = [1], data = [5] \<rparr>)]], [1])"

section \<open>Verified properties\<close>

lemma get_all_params_loop_Some:
  "get_all_params_loop copy (Some r) ps =
     Some \<lparr> elems = elems r @ concat (map (\<lambda>p. data (val p)) (filter requires_grad ps)),
            attached = (attached r \<or> (\<not> copy \<and> filter requires_grad ps \<noteq> [])) \<rparr>"
  by (induction ps arbitrary: r) (auto simp: cat_def flat_piece_def)

lemma get_all_params_loop_None:
  "get_all_params_loop copy None ps =
     (if filter requires_grad ps = [] then None
      else Some \<lparr> elems = concat (map (\<lambda>p. data (val p)) (filter requires_grad ps)),
                  attached = (\<not> copy) \<rparr>)"
  by (induction ps) (auto simp: get_all_params_loop_Some flat_piece_def)

lemma get_all_params_of_eq:
  "get_all_params_of m copy =
     (if trainable m = [] then None
      else Some \<lparr> elems = concat (map (\<lambda>p. data (val p)) (trainable m)), attached = (\<not> copy) \<rparr>)"
  by (simp add: get_all_params_of_def get_all_params_loop_None trainable_def)


lemma load_loop_id:
  assumes "distinct (map fst ps0)"
  shows "set rest \<subseteq> set ps0 \<Longrightarrow> \<forall>(k, p) \<in> set rest. wf_tensor (val p) \<Longrightarrow>
     drop idx v = concat (map (\<lambda>p. data (val p)) (filter requires_grad (map snd rest))) @ post \<Longrightarrow>
     load_all_params_loop (Some v) idx ps0 rest = Inr ps0"
proof (induction rest arbitrary: idx)
  case Nil
  then show ?case by simp
next
  case (Cons a rest)
  obtain name p where a: "a = (name, p)" by (cases a)
  show ?case
  proof (cases "requires_grad p")
    case False
    with Cons a show ?thesis by simp
  next
    case True
    have mem: "map_of ps0 name = Some p"
      using Cons.prems(1) a assms by simp
    have wf: "length (data (val p)) = numel (val p)"
      using Cons.prems(2) a by (simp add: wf_tensor_def)
    have dr: "drop idx v = data (val p) @ concat (map (\<lambda>p. data (val p)) (filter requires_grad (map snd rest))) @ post"
      using Cons.prems(3) a True by simp
    have sl: "take (length (data (val p))) (drop idx v) = data (val p)"
      by (simp add: dr)
    have dr': "drop (idx + length (data (val p))) v = concat (map (\<lambda>p. data (val p)) (filter requires_grad (map snd rest))) @ post"
      using dr by (metis add.commute append_eq_conv_conj drop_drop)
    have upd: "AList.update name (p\<lparr>val := \<lparr>shape = shape (val p), data = data (val p)\<rparr>\<rparr>) ps0 = ps0"
      using mem by (simp add: update_triv)
    have IH: "load_all_params_loop (Some v) (idx + length (data (val p))) ps0 rest = Inr ps0"
      using Cons.IH[OF _ _ dr'] Cons.prems(1,2) by simp
    have sl': "take (numel (val p)) (drop idx v) = data (val p)"
      using sl wf by simp
    have ln: "min (length v - idx) (numel (val p)) = numel (val p)"
      using arg_cong[OF sl', of length] wf by simp
    show ?thesis
      unfolding a load_all_params_loop.simps Let_def
      using True mem ln upd IH wf by (simp add: sl')
  qed
qed


lemma keys_param_vals: "map fst (map (\<lambda>(k, p). (k, f p)) ps) = map fst ps"
  by (induction ps) auto

lemma keys_state_dict_of:
  "map fst (state_dict_of m) = map fst (named_parameters m) @ map fst (named_buffers m)"
  unfolding state_dict_of_def map_append keys_param_vals ..

lemma wf_module_params:
  assumes "wf_module m"
  shows "distinct (map fst (named_parameters m))"
    and "\<forall>(k, p) \<in> set (named_parameters m). wf_tensor (val p)"
    and "\<forall>(k, t) \<in> set (named_buffers m). k \<notin> fst ` set (named_parameters m)"
proof -
  have d: "distinct (map fst (named_parameters m) @ map fst (named_buffers m))"
    using assms unfolding wf_module_def keys_state_dict_of by simp
  show "distinct (map fst (named_parameters m))"
    using d by simp
  show "\<forall>(k, p) \<in> set (named_parameters m). wf_tensor (val p)"
    using assms by (auto simp: wf_module_def state_dict_of_def list_all_iff)
  show "\<forall>(k, t) \<in> set (named_buffers m). k \<notin> fst ` set (named_parameters m)"
    using d by (auto simp: image_iff) (metis fst_conv image_eqI disjoint_iff)
qed

lemma map_of_param_vals:
  "map_of (map (\<lambda>(k, p). (k, val p)) ps) k = map_option val (map_of ps k)"
  by (induction ps) auto

lemma load_state_dict_self:
  assumes "wf_module m"
  shows "load_state_dict False m (map (\<lambda>(k, p). (k, val p)) (named_parameters m)) = Inr m"
proof -
  let ?sd = "map (\<lambda>(k, p). (k, val p)) (named_parameters m)"
  have par: "\<And>k p. (k, p) \<in> set (named_parameters m) \<Longrightarrow> map_of ?sd k = Some (val p)"
    using wf_module_params(1)[OF assms] by (simp add: map_of_param_vals)
  have buf: "\<And>k t. (k, t) \<in> set (named_buffers m) \<Longrightarrow> map_of ?sd k = None"
    using wf_module_params(3)[OF assms]
    by (auto simp: map_of_param_vals map_of_eq_None_iff)
  have ok: "\<not> list_ex (\<lambda>(k, t). case map_of ?sd k of None \<Rightarrow> False
                                  | Some t' \<Rightarrow> shape t' \<noteq> shape t) (state_dict_of m)"
    by (auto simp: list_ex_iff state_dict_of_def par buf)
  have p1: "map (\<lambda>(k, p). (k, case map_of ?sd k of None \<Rightarrow> p | Some t' \<Rightarrow> p\<lparr>val := t'\<rparr>))
              (named_parameters m) = named_parameters m"
    by (rule map_idI) (auto simp: par)
  have p2: "map (\<lambda>(k, t). (k, case map_of ?sd k of None \<Rightarrow> t | Some t' \<Rightarrow> t'))
              (named_buffers m) = named_buffers m"
    by (rule map_idI) (auto simp: buf)
  show ?thesis
    unfolding load_state_dict_def using ok by (simp add: p1 p2)
qed

lemma load_all_params_loop_frozen:
  "filter requires_grad (map snd rest) = [] \<Longrightarrow> load_all_params_loop params idx dp rest = Inr dp"
  by (induction rest) (auto split: if_splits)

lemma length_flat:
  "\<forall>p \<in> set ps. wf_tensor (val p) \<Longrightarrow>
     length (concat (map (\<lambda>p. data (val p)) ps)) = sum_list (map (\<lambda>p. numel (val p)) ps)"
  by (induction ps) (auto simp: wf_tensor_def)

lemma load_all_params_self:
  assumes "wf_module m"
  shows "load_all_params m (map_option elems (get_all_params_of m copy)) = Inr m \<and>
         (\<forall>f. get_all_params_of m copy = Some f \<longrightarrow>
              length (elems f) = sum_list (map (\<lambda>p. numel (val p)) (trainable m)))"
proof
  have wfp: "\<forall>p \<in> set (trainable m). wf_tensor (val p)"
    using wf_module_params(2)[OF assms] by (auto simp: trainable_def parameters_def)
  show "\<forall>f. get_all_params_of m copy = Some f \<longrightarrow>
              length (elems f) = sum_list (map (\<lambda>p. numel (val p)) (trainable m))"
    using length_flat[OF wfp] by (auto simp: get_all_params_of_eq split: if_splits)
  have loop: "load_all_params_loop (map_option elems (get_all_params_of m copy)) 0
                (named_parameters m) (named_parameters m) = Inr (named_parameters m)"
  proof (cases "trainable m = []")
    case True
    then show ?thesis
      by (simp add: load_all_params_loop_frozen trainable_def parameters_def)
  next
    case False
    have "load_all_params_loop (Some (concat (map (\<lambda>p. data (val p)) (trainable m)))) 0
                (named_parameters m) (named_parameters m) = Inr (named_parameters m)"
      by (rule load_loop_id[where post = "[]"])
         (use wf_module_params[OF assms] in \<open>auto simp: trainable_def parameters_def\<close>)
    with False show ?thesis by (simp add: get_all_params_of_eq)
  qed
  show "load_all_params m (map_option elems (get_all_params_of m copy)) = Inr m"
    unfolding load_all_params_def loop using load_state_dict_self[OF assms] by simp
qed


lemma trainable_Nil_iff: "trainable m = [] \<longleftrightarrow> (\<forall>p \<in> set (parameters m). \<not> requires_grad p)"
  by (auto simp: trainable_def filter_empty_conv)

lemma load_state_dict_flags:
  assumes "load_state_dict strict m sd = Inr m'"
  shows "map requires_grad (parameters m') = map requires_grad (parameters m)"
proof -
  have "named_parameters m' =
          map (\<lambda>(k, p). (k, case map_of sd k of None \<Rightarrow> p | Some t' \<Rightarrow> p\<lparr>val := t'\<rparr>))
            (named_parameters m)"
    using assms by (auto simp: load_state_dict_def split: if_splits)
  then show ?thesis
    by (auto simp: parameters_def split: option.splits)
qed

lemma load_state_dict_trainable_Nil:
  assumes "load_state_dict strict m sd = Inr m'" and "trainable m = []"
  shows "trainable m' = []"
proof -
  have "set (map requires_grad (parameters m')) = set (map requires_grad (parameters m))"
    using load_state_dict_flags[OF assms(1)] by simp
  then show ?thesis
    using assms(2) unfolding trainable_Nil_iff by (metis (no_types, lifting) image_iff list.set_map)
qed

lemma isl_bindE: "isl (bindE x f) \<longleftrightarrow> (case x of Inl e \<Rightarrow> True | Inr y \<Rightarrow> isl (f y))"
  by (cases x) auto

text \<open>
  Claim C10. When no parameter of a model requires a gradient, \<open>get_all_params_of\<close>
  returns \<open>None\<close>, not an empty vector; and each caller then fails: \<open>receive_model\<close>
  on the first receipt raises at \<^verbatim>\<open>zeros_like\<close>, \<open>fit\<close> and
  \<open>FedDynServer_aggregate\<close> never return a result.
\<close>

theorem no_trainable_None:
  assumes "\<forall>p \<in> set (parameters m). \<not> requires_grad p"
  shows "get_all_params_of m copy = None \<and>
         (model c = None \<and> receive ch (Client (index c)) Server ''model'' = Inr (msg, ch') \<and>
            payload msg = Models m cld \<longrightarrow> receive_model sl ch c = Inl TypeError) \<and>
         (model c' = Some m \<longrightarrow> isl (fit tr c' override)) \<and>
         (server_model srv = m \<longrightarrow> isl (FedDynServer_aggregate gw am srv eligible client_models))"
proof -
  have nil: "trainable m = []"
    using assms by (simp add: trainable_Nil_iff)
  have none: "\<And>copy. get_all_params_of m copy = None"
    by (simp add: get_all_params_of_eq nil)
  have rm: "model c = None \<and> receive ch (Client (index c)) Server ''model'' = Inr (msg, ch') \<and>
            payload msg = Models m cld \<longrightarrow> receive_model sl ch c = Inl TypeError"
    by (simp add: receive_model_def none)
  have ft: "model c' = Some m \<longrightarrow> isl (fit tr c' override)"
    by (auto simp: fit_def Let_def none split: option.splits)
  have ag: "server_model srv = m \<longrightarrow> isl (FedDynServer_aggregate gw am srv eligible client_models)"
  proof
    assume sm: "server_model srv = m"
    have "\<And>sd m'. load_state_dict True m sd = Inr m' \<Longrightarrow> get_all_params_of m' True = None"
      using load_state_dict_trainable_Nil[OF _ nil] by (simp add: get_all_params_of_eq)
    then show "isl (FedDynServer_aggregate gw am srv eligible client_models)"
      unfolding FedDynServer_aggregate_def sm
      by (auto simp: isl_bindE Let_def split: sum.splits prod.splits)
  qed
  show ?thesis using none rm ft ag by blast
qed

theorem no_trainable_None_witness:
  "list_all (\<lambda>p. \<not> requires_grad p) (parameters frozen_module) \<and>
   get_all_params_of frozen_module True = None \<and>
   receive_model (\<lambda>m sd. Inr m)
     (send empty_channel \<lparr> payload = Models frozen_module frozen_module, msg_type = ''model'',
                            sender = Server \<rparr> (Client 0))
     (example_client 0 10) = Inl TypeError \<and>
   isl (fit example_trainer ((example_client 0 10)\<lparr>model := Some frozen_module, weight := Some 1\<rparr>) 0) \<and>
   isl (FedDynServer_aggregate (\<lambda>srv el. Inr [1]) (\<lambda>m cms ws eta. Inr (state_dict_of m))
          \<lparr> chan = empty_channel, clients = [example_client 0 10], server_model = frozen_module,
            cld_mdl = frozen_module, lr = 1, weighted = True \<rparr> [example_client 0 10] [frozen_module])"
proof -
  have h: "\<forall>p \<in> set (parameters frozen_module). \<not> requires_grad p"
    by (simp add: parameters_def frozen_module_def)
  have r: "receive (send empty_channel \<lparr> payload = Models frozen_module frozen_module, msg_type = ''model'',
                            sender = Server \<rparr> (Client 0)) (Client (index (example_client 0 10 :: (unit, unit) client))) Server ''model''
         = Inr (\<lparr> payload = Models frozen_module frozen_module, msg_type = ''model'', sender = Server \<rparr>,
                \<lparr> pending = [], history = [Sent Server (Client 0) ''model'', Received Server (Client 0) ''model''] \<rparr>)"
    by (simp add: receive_def send_def empty_channel_def example_client_def)
  show ?thesis
    using r no_trainable_None[OF h, where c = "example_client 0 10"
        and ch = "send empty_channel \<lparr> payload = Models frozen_module frozen_module, msg_type = ''model'',
                            sender = Server \<rparr> (Client 0)"
        and msg = "\<lparr> payload = Models frozen_module frozen_module, msg_type = ''model'', sender = Server \<rparr>"
        and ch' = "\<lparr> pending = [], history = [Sent Server (Client 0) ''model'', Received Server (Client 0) ''model''] \<rparr>"
        and cld = frozen_module
        and c' = "(example_client 0 10)\<lparr>model := Some frozen_module, weight := Some 1\<rparr>"
        and srv = "\<lparr> chan = empty_channel, clients = [example_client 0 10], server_model = frozen_module,
            cld_mdl = frozen_module, lr = 1, weighted = True \<rparr>"
        and copy = True and sl = "\<lambda>m sd. Inr m" and tr = example_trainer and override = 0
        and gw = "\<lambda>srv el. Inr [1]" and am = "\<lambda>m cms ws eta. Inr (state_dict_of m)"
        and eligible = "[example_client 0 10]" and client_models = "[frozen_module]"]
    by (simp add: example_client_def parameters_def frozen_module_def)
qed

lemma take_message_none:
  "list_all (\<lambda>(r, m). msg_type m \<noteq> t) xs \<Longrightarrow> take_message rc s t xs = None"
  by (induction xs) auto

lemma take_message_first:
  "list_all (\<lambda>(r, m). msg_type m \<noteq> t) xs \<Longrightarrow> sender m = s \<Longrightarrow> msg_type m = t \<Longrightarrow>
     take_message rc s t (xs @ (rc, m) # ys) = Some (m, xs @ ys)"
  by (induction xs) auto

lemma send_weight_all_eq:
  "send_weight_all ch cs =
     \<lparr> pending = pending ch @
         map (\<lambda>c. (Server, \<lparr> payload = Count (n_examples (train_set c)), msg_type = ''weight'',
                              sender = Client (index c) \<rparr>)) cs,
       history = history ch @ map (\<lambda>c. Sent (Client (index c)) Server ''weight'') cs \<rparr>"
  by (induction cs arbitrary: ch) (auto simp: send_weight_def send_def)

lemma receive_weight_payloads_eq:
  "list_all (\<lambda>(r, m). msg_type m \<noteq> ''weight'') P \<Longrightarrow>
   receive_weight_payloads
     \<lparr> pending = P @ map (\<lambda>c. (Server, \<lparr> payload = Count (n_examples (train_set c)),
                                           msg_type = ''weight'', sender = Client (index c) \<rparr>)) cs,
       history = H \<rparr> cs =
   Inr (map real (counts cs),
        \<lparr> pending = P, history = H @ map (\<lambda>c. Received (Client (index c)) Server ''weight'') cs \<rparr>)"
proof (induction cs arbitrary: H)
  case Nil
  then show ?case by (simp add: counts_def)
next
  case (Cons c cs)
  show ?case
    using Cons.prems Cons.IH[OF Cons.prems]
    by (simp add: receive_def take_message_first as_number_def counts_def)
qed

lemma send_normalized_eq:
  "length ws = length cs \<Longrightarrow>
   send_normalized ch ws cs =
     Inr \<lparr> pending = pending ch @
             map (\<lambda>(w, c). (Client (index c), \<lparr> payload = Weight w, msg_type = ''weight'',
                                                 sender = Server \<rparr>)) (zip ws cs),
           history = history ch @ map (\<lambda>c. Sent Server (Client (index c)) ''weight'') cs \<rparr>"
proof (induction ch ws cs rule: send_normalized.induct)
  case (1 ch weights)
  then show ?case by simp
next
  case (2 ch c cs)
  then show ?case by simp
next
  case (3 ch w weights c cs)
  then show ?case by (simp add: send_def)
qed

lemma receive_weights_all_eq:
  "list_all (\<lambda>(r, m). msg_type m \<noteq> ''weight'') P \<Longrightarrow> length ws = length cs \<Longrightarrow>
   receive_weights_all
     \<lparr> pending = P @ map (\<lambda>(w, c). (Client (index c), \<lparr> payload = Weight w, msg_type = ''weight'',
                                                         sender = Server \<rparr>)) (zip ws cs),
       history = H \<rparr> cs =
   Inr (\<lparr> pending = P, history = H @ map (\<lambda>c. Received Server (Client (index c)) ''weight'') cs \<rparr>,
        map (\<lambda>(w, c). c\<lparr>weight := Some w\<rparr>) (zip ws cs))"
proof (induction cs arbitrary: H ws)
  case Nil
  then show ?case by simp
next
  case (Cons c cs)
  then obtain w ws' where ws: "ws = w # ws'" and len: "length ws' = length cs"
    by (cases ws) auto
  show ?case
    using Cons.prems(1) Cons.IH[OF Cons.prems(1) len]
    by (simp add: ws receive_weights_def receive_def take_message_first)
qed

lemma sum_list_map_real: "sum_list (map real xs) = real (sum_list xs)"
  by (induction xs) auto

lemma map_zip_map_left: "map (\<lambda>(w, c). g w c) (zip (map f cs) cs) = map (\<lambda>c. g (f c) c) cs"
  by (induction cs) auto

lemma weight_exchange_eq:
  assumes "weight_free (chan srv)" and "sum_list (counts (clients srv)) \<noteq> 0"
  shows "weight_exchange srv =
     Inr (srv\<lparr>chan := \<lparr> pending = pending (chan srv),
                         history = history (chan srv) @ weight_events (clients srv) \<rparr>,
              clients := map (\<lambda>c. c\<lparr>weight := Some (real (n_examples (train_set c)) /
                                         real (sum_list (counts (clients srv))) *
                                         real (length (clients srv)))\<rparr>) (clients srv)\<rparr>)"
proof -
  let ?cs = "clients srv"
  let ?tot = "real (sum_list (counts ?cs))"
  define f :: "('a, 'b) client \<Rightarrow> real"
    where "f = (\<lambda>c. real (n_examples (train_set c)) / ?tot * real (length ?cs))"
  have wf: "list_all (\<lambda>(r, m). msg_type m \<noteq> ''weight'') (pending (chan srv))"
    using assms(1) by (simp add: weight_free_def)
  have mp: "map (\<lambda>w. w / ?tot * real (length ?cs)) (map real (counts ?cs)) = map f ?cs"
    unfolding counts_def f_def by (induction ?cs) auto
  have nw: "normalize_weights (map real (counts ?cs)) (n_clients srv) = Inr (map f ?cs)"
    unfolding normalize_weights_def n_clients_def sum_list_map_real mp
    using assms(2) by simp
  have p2: "receive_weight_payloads (send_weight_all (chan srv) ?cs) ?cs =
      Inr (map real (counts ?cs),
           \<lparr> pending = pending (chan srv),
             history = (history (chan srv) @ map (\<lambda>c. Sent (Client (index c)) Server ''weight'') ?cs)
                        @ map (\<lambda>c. Received (Client (index c)) Server ''weight'') ?cs \<rparr>)"
    unfolding send_weight_all_eq by (rule receive_weight_payloads_eq[OF wf])
  have p3: "\<And>ch. send_normalized ch (map f ?cs) ?cs =
     Inr \<lparr> pending = pending ch @
             map (\<lambda>(w, c). (Client (index c), \<lparr> payload = Weight w, msg_type = ''weight'',
                                                 sender = Server \<rparr>)) (zip (map f ?cs) ?cs),
           history = history ch @ map (\<lambda>c. Sent Server (Client (index c)) ''weight'') ?cs \<rparr>"
    by (rule send_normalized_eq) simp
  have p4: "\<And>H. receive_weights_all
     \<lparr> pending = pending (chan srv) @ map (\<lambda>(w, c). (Client (index c), \<lparr> payload = Weight w, msg_type = ''weight'',
                                                         sender = Server \<rparr>)) (zip (map f ?cs) ?cs),
       history = H \<rparr> ?cs =
   Inr (\<lparr> pending = pending (chan srv), history = H @ map (\<lambda>c. Received Server (Client (index c)) ''weight'') ?cs \<rparr>,
        map (\<lambda>(w, c). c\<lparr>weight := Some w\<rparr>) (zip (map f ?cs) ?cs))"
    by (rule receive_weights_all_eq[OF wf]) simp
  have "weight_exchange srv =
     Inr (srv\<lparr>chan := \<lparr> pending = pending (chan srv),
                         history = history (chan srv) @ weight_events (clients srv) \<rparr>,
              clients := map (\<lambda>c. c\<lparr>weight := Some (f c)\<rparr>) (clients srv)\<rparr>)"
    unfolding weight_exchange_def Let_def p2
    by (simp add: nw p3[unfolded map_zip_map_left] p4[unfolded map_zip_map_left] weight_events_def)
  then show ?thesis
    unfolding f_def .
qed


lemma sum_list_scaled:
  "sum_list (map (\<lambda>c. g c / t * n) cs) = sum_list (map g cs) / t * (n :: real)"
  by (induction cs) (auto simp: add_divide_distrib distrib_right)

lemma sum_list_const_nat: "\<forall>x \<in> set xs. x = k \<Longrightarrow> sum_list xs = k * length (xs :: nat list)"
  by (induction xs) auto

text \<open>
  Claim C4. \<open>send_weight\<close> reports the client's number of examples to the server.
  When no weight message is pending and the clients hold at least one example in all,
  the weight computation of \<^verbatim>\<open>FedDynServer.fit\<close> succeeds and leaves in client \<open>i\<close>
  the weight \<open>count\<^sub>i / (\<Sum>\<^sub>j count\<^sub>j) * N_clients\<close>; the stored weights sum to
  \<open>N_clients\<close>, and each is one when all counts are equal.
\<close>

theorem weight_exchange_normalizes:
  assumes "weight_free (chan srv)" and "sum_list (counts (clients srv)) \<noteq> 0"
  shows "\<exists>srv'. weight_exchange srv = Inr srv' \<and>
           map weight (clients srv') =
             map (\<lambda>c. Some (real (n_examples (train_set c)) /
                             real (sum_list (counts (clients srv))) * real (n_clients srv)))
               (clients srv) \<and>
           sum_list (map (\<lambda>c. the (weight c)) (clients srv')) = real (n_clients srv) \<and>
           ((\<forall>c \<in> set (clients srv). n_examples (train_set c) = k) \<longrightarrow>
              (\<forall>c \<in> set (clients srv'). weight c = Some 1)) \<and>
           pending (send_weight ch c) =
             pending ch @ [(Server, \<lparr> payload = Count (n_examples (train_set c)),
                                       msg_type = ''weight'', sender = Client (index c) \<rparr>)]"
proof -
  let ?cs = "clients srv"
  let ?tot = "real (sum_list (counts ?cs))"
  let ?N = "real (length ?cs)"
  let ?srv' = "srv\<lparr>chan := \<lparr> pending = pending (chan srv),
                         history = history (chan srv) @ weight_events ?cs \<rparr>,
              clients := map (\<lambda>c. c\<lparr>weight := Some (real (n_examples (train_set c)) / ?tot * ?N)\<rparr>) ?cs\<rparr>"
  have tot0: "?tot \<noteq> 0" using assms(2) by simp
  have ex: "weight_exchange srv = Inr ?srv'"
    by (rule weight_exchange_eq[OF assms])
  have w: "map weight (clients ?srv') =
             map (\<lambda>c. Some (real (n_examples (train_set c)) / ?tot * real (n_clients srv))) ?cs"
    by (simp add: n_clients_def o_def)
  have div1: "\<And>T N :: real. T \<noteq> 0 \<Longrightarrow> T / T * N = N" by simp
  have "sum_list (map (\<lambda>c. the (weight c)) (clients ?srv')) =
          sum_list (map (\<lambda>c. real (n_examples (train_set c)) / ?tot * ?N) ?cs)"
    by (simp add: o_def)
  also have "\<dots> = sum_list (map (\<lambda>c. real (n_examples (train_set c))) ?cs) / ?tot * ?N"
    by (rule sum_list_scaled)
  also have "sum_list (map (\<lambda>c. real (n_examples (train_set c))) ?cs) = ?tot"
    using sum_list_map_real[of "counts ?cs"] by (simp add: counts_def o_def)
  also have "?tot / ?tot * ?N = ?N"
    by (rule div1[OF tot0])
  finally have s: "sum_list (map (\<lambda>c. the (weight c)) (clients ?srv')) = real (n_clients srv)"
    by (simp only: n_clients_def)
  have e: "(\<forall>c \<in> set ?cs. n_examples (train_set c) = k) \<longrightarrow>
              (\<forall>c \<in> set (clients ?srv'). weight c = Some 1)"
  proof
    assume all: "\<forall>c \<in> set ?cs. n_examples (train_set c) = k"
    then have "sum_list (counts ?cs) = k * length (counts ?cs)"
      by (intro sum_list_const_nat) (simp add: counts_def)
    then have t: "?tot = real k * ?N"
      by (simp add: counts_def)
    with tot0 have "real k \<noteq> 0" "?N \<noteq> 0" by auto
    then have "real k / (real k * ?N) * ?N = 1" by simp
    then show "\<forall>c \<in> set (clients ?srv'). weight c = Some 1"
      using all t by auto
  qed
  have p: "pending (send_weight ch c) =
             pending ch @ [(Server, \<lparr> payload = Count (n_examples (train_set c)),
                                       msg_type = ''weight'', sender = Client (index c) \<rparr>)]"
    by (simp add: send_weight_def send_def)
  show ?thesis
    using ex w s e p by blast
qed

theorem weight_exchange_normalizes_witness:
  "weight_free (chan example_server) \<and> sum_list (counts (clients example_server)) = 60 \<and>
   (\<exists>srv'. weight_exchange example_server = Inr srv' \<and>
      map weight (clients srv') = [Some (1 / 2), Some 1, Some (3 / 2)] \<and>
      sum_list (map (\<lambda>c. the (weight c)) (clients srv')) = 3) \<and>
   weight_free (chan equal_server) \<and> sum_list (counts (clients equal_server)) = 40 \<and>
   list_all (\<lambda>c. n_examples (train_set c) = 20) (clients equal_server) \<and>
   (\<exists>srv'. weight_exchange equal_server = Inr srv' \<and>
      list_all (\<lambda>c. weight c = Some 1) (clients srv'))"
proof -
  have h1: "weight_free (chan example_server)"
    by (simp add: example_server_def weight_free_def empty_channel_def)
  have h2: "sum_list (counts (clients example_server)) = 60"
    by (simp add: example_server_def counts_def example_client_def)
  have h2': "sum_list (counts (clients example_server)) \<noteq> 0"
    using h2 by simp
  have a: "\<exists>srv'. weight_exchange example_server = Inr srv' \<and>
      map weight (clients srv') = [Some (1 / 2), Some 1, Some (3 / 2)] \<and>
      sum_list (map (\<lambda>c. the (weight c)) (clients srv')) = 3"
    using weight_exchange_normalizes[OF h1 h2', where k = 0 and ch = empty_channel
        and c = "example_client 0 10"] h2
    by (auto simp: n_clients_def example_server_def example_client_def)
  have g1: "weight_free (chan equal_server)"
    by (simp add: equal_server_def example_server_def weight_free_def empty_channel_def)
  have g2: "sum_list (counts (clients equal_server)) = 40"
    by (simp add: equal_server_def example_server_def counts_def example_client_def)
  have g2': "sum_list (counts (clients equal_server)) \<noteq> 0"
    using g2 by simp
  have g3: "list_all (\<lambda>c. n_examples (train_set c) = 20) (clients equal_server)"
    by (simp add: equal_server_def example_server_def example_client_def)
  have b: "\<exists>srv'. weight_exchange equal_server = Inr srv' \<and>
      list_all (\<lambda>c. weight c = Some 1) (clients srv')"
    using weight_exchange_normalizes[OF g1 g2', where k = 20 and ch = empty_channel
        and c = "example_client 0 20"] g3
    by (auto simp: list_all_iff)
  show ?thesis
    using h1 h2 a g1 g2 g3 b by blast
qed

lemma broadcast_history:
  "prefix (history ch) (history (broadcast ch msg is))"
proof (induction "is" arbitrary: ch)
  case Nil
  then show ?case by simp
next
  case (Cons i "is")
  have "prefix (history ch) (history (send ch msg (Client i)))"
    by (simp add: send_def)
  then show ?case
    using Cons.IH[of "send ch msg (Client i)"] by (auto intro: prefix_order.trans)
qed

lemma arch_trainable_numel:
  assumes "arch m = arch m'"
  shows "map (\<lambda>p. numel (val p)) (trainable m) = map (\<lambda>p. numel (val p)) (trainable m')"
proof -
  have eq: "map (\<lambda>(k, p). (k, shape (val p), requires_grad p)) (named_parameters m) =
            map (\<lambda>(k, p). (k, shape (val p), requires_grad p)) (named_parameters m')"
    using assms by (simp add: arch_def)
  have "\<And>qs. map (\<lambda>(k, p). (k, shape (val p), requires_grad p)) ps =
               map (\<lambda>(k, p). (k, shape (val p), requires_grad p)) qs \<Longrightarrow>
          map (\<lambda>p. numel (val p)) (filter requires_grad (map snd ps)) =
          map (\<lambda>p. numel (val p)) (filter requires_grad (map snd qs))" for ps :: "(string \<times> param) list"
  proof (induction ps)
    case Nil
    then show ?case by simp
  next
    case (Cons a ps)
    then obtain b qs' where qs: "qs = b # qs'" by (cases qs) auto
    show ?case
      using Cons.prems Cons.IH[of qs'] unfolding qs
      by (cases a; cases b) (auto simp: numel_def)
  qed
  from this[OF eq] show ?thesis
    by (simp add: trainable_def parameters_def)
qed

lemma wf_module_trainable:
  "wf_module m \<Longrightarrow> \<forall>p \<in> set (trainable m). wf_tensor (val p)"
  using wf_module_params(2)[of m] by (auto simp: trainable_def parameters_def)

lemma get_all_params_of_arch:
  assumes "wf_module m" and "trainable m \<noteq> []"
  shows "\<exists>f. get_all_params_of m copy = Some f \<and> attached f = (\<not> copy) \<and>
             length (elems f) = flat_len m"
  using assms length_flat[OF wf_module_trainable[OF assms(1)]]
  by (simp add: get_all_params_of_eq flat_len_def)

lemma arch_same:
  assumes "arch m = arch m'"
  shows "flat_len m = flat_len m'" and "trainable m = [] \<longleftrightarrow> trainable m' = []"
proof -
  show "flat_len m = flat_len m'"
    using arch_trainable_numel[OF assms] by (simp add: flat_len_def)
  show "trainable m = [] \<longleftrightarrow> trainable m' = []"
    using arg_cong[OF arch_trainable_numel[OF assms], of length]
    by (simp only: length_map) (metis length_0_conv)
qed


lemma fit_minibatch_ok:
  assumes "keeps_arch tr" and "wf_module m" and "arch m = arch m1" and "trainable m1 \<noteq> []"
    and "length sp = flat_len m1" and "length pg = flat_len m1"
  shows "\<exists>opt' m' rl'. fit_minibatch tr a sp (Some pg) (opt, m, rl) b = Inr (opt', m', rl') \<and>
           wf_module m' \<and> arch m' = arch m1"
proof -
  have tr: "trainable m \<noteq> []"
    using arch_same(2)[OF assms(3)] assms(4) by simp
  obtain cur where cur: "get_all_params_of m False = Some cur"
    and len: "length (elems cur) = flat_len m1"
    using get_all_params_of_arch[OF assms(2) tr, of False] arch_same(1)[OF assms(3)] by auto
  define pen where "pen = \<lparr> coef = a, curr_params = cur,
                              factor = map2 (+) (vec_neg sp) pg \<rparr>"
  obtain opt' m' where st: "backward_step tr opt m b pen = (opt', m')"
    by (cases "backward_step tr opt m b pen")
  have k: "wf_module m' \<and> arch m' = arch m"
    using assms(1,2) st unfolding keeps_arch_def by (metis snd_conv)
  have "fit_minibatch tr a sp (Some pg) (opt, m, rl) b =
          Inr (opt', m', rl + (task_loss tr m b +
                 a * sum_list (map2 (*) (elems cur) (map2 (+) (vec_neg sp) pg))))"
    using cur len assms(5,6) st
    by (simp add: fit_minibatch_def vec_zip_def vec_neg_def pen_def Let_def)
  then show ?thesis
    using k assms(3) by simp
qed

lemma fit_batches_ok:
  assumes "keeps_arch tr" and "trainable m1 \<noteq> []"
    and "length sp = flat_len m1" and "length pg = flat_len m1"
  shows "wf_module m \<Longrightarrow> arch m = arch m1 \<Longrightarrow>
         \<exists>opt' m' rl'. fit_batches tr a sp (Some pg) (opt, m, rl) bs = Inr (opt', m', rl') \<and>
           wf_module m' \<and> arch m' = arch m1"
proof (induction bs arbitrary: opt m rl)
  case Nil
  then show ?case by simp
next
  case (Cons b bs)
  obtain opt1 m2 rl1 where
    s: "fit_minibatch tr a sp (Some pg) (opt, m, rl) b = Inr (opt1, m2, rl1)"
    and w: "wf_module m2" and ar: "arch m2 = arch m1"
    using fit_minibatch_ok[OF assms(1) Cons.prems(1,2) assms(2,3,4)] by blast
  show ?case
    using Cons.IH[OF w ar, of opt1 rl1] by (simp add: s)
qed

lemma fit_epochs_ok:
  assumes "keeps_arch tr" and "trainable m1 \<noteq> []"
    and "length sp = flat_len m1" and "length pg = flat_len m1"
  shows "wf_module m \<Longrightarrow> arch m = arch m1 \<Longrightarrow>
         \<exists>opt' m' rl'. fit_epochs tr a sp (Some pg) n bs (opt, m, rl) = Inr (opt', m', rl') \<and>
           wf_module m' \<and> arch m' = arch m1"
proof (induction n arbitrary: opt m rl)
  case 0
  then show ?case by simp
next
  case (Suc n)
  obtain opt1 m2 rl1 where
    s: "fit_batches tr a sp (Some pg) (opt, m, rl) bs = Inr (opt1, m2, rl1)"
    and w: "wf_module m2" and ar: "arch m2 = arch m1"
    using fit_batches_ok[OF assms Suc.prems] by blast
  show ?case
    using Suc.IH[OF w ar, of "scheduler_step tr opt1" rl1] by (simp add: s)
qed

lemma set_requires_grad_id:
  assumes "\<forall>p \<in> set (parameters m). requires_grad p"
  shows "set_requires_grad m = m"
proof -
  have "map (\<lambda>(k, p). (k, p\<lparr>requires_grad := True\<rparr>)) (named_parameters m) = named_parameters m"
    by (rule map_idI) (use assms in \<open>auto simp: parameters_def\<close>)
  then show ?thesis by (simp add: set_requires_grad_def)
qed

text \<open>
  Claim C2. For a client whose model is well-formed with every parameter trainable, whose
  weight is not zero and whose surrogate has the length of the flattened parameters, and
  for a training step that changes values only, \<open>fit\<close> returns, and the surrogate it
  leaves is \<open>prev_grads + (alpha / weight) * (server_params - curr_params)\<close>, one
  update, with \<open>server_params\<close> the detached flattened parameters before training and
  \<open>curr_params\<close> the detached flattened parameters of the trained model.
\<close>

theorem fit_updates_prev_grads:
  assumes "keeps_arch tr"
    and "model c = Some m0" and "wf_module m0"
    and "parameters m0 \<noteq> []" and "\<forall>p \<in> set (parameters m0). requires_grad p"
    and "weight c = Some w" and "w \<noteq> 0"
    and "prev_grads c = Some pg" and "length pg = flat_len m0"
    and "(if override > 0 then override else local_epochs c) * int (length (batches (train_set c))) \<noteq> 0"
  shows "\<exists>c' loss m' server_params curr_params.
           fit tr c override = Inr (c', loss) \<and>
           get_all_params_of m0 True = Some server_params \<and> \<not> attached server_params \<and>
           model c' = Some m' \<and>
           get_all_params_of m' True = Some curr_params \<and> \<not> attached curr_params \<and>
           prev_grads c' =
             Some (map2 (+) pg
                    (map (\<lambda>d. alpha c / w * d)
                       (map2 (-) (elems server_params) (elems curr_params))))"
proof -
  let ?epochs = "if override > 0 then override else local_epochs c"
  let ?a = "alpha c / w"
  have tr0: "trainable m0 \<noteq> []"
    using assms(4,5) by (cases "parameters m0") (auto simp: trainable_def)
  obtain sp where sp: "get_all_params_of m0 True = Some sp" and spa: "\<not> attached sp"
    and spl: "length (elems sp) = flat_len m0"
    using get_all_params_of_arch[OF assms(3) tr0, of True] by auto
  have m1: "set_requires_grad m0 = m0"
    by (rule set_requires_grad_id[OF assms(5)])
  define opt where "opt = (case optimizer c of
                             None \<Rightarrow> make_optimizer tr m0 (?a + weight_decay c)
                           | Some opt0 \<Rightarrow> opt0)"
  obtain opt' m' rl where
    ep: "fit_epochs tr ?a (elems sp) (Some pg) (nat ?epochs) (batches (train_set c)) (opt, m0, 0)
           = Inr (opt', m', rl)"
    and w': "wf_module m'" and ar: "arch m' = arch m0"
    using fit_epochs_ok[OF assms(1) tr0 spl assms(9) assms(3) refl] by blast
  have tr': "trainable m' \<noteq> []"
    using arch_same(2)[OF ar] tr0 by simp
  obtain cur where cur: "get_all_params_of m' True = Some cur" and cura: "\<not> attached cur"
    and curl: "length (elems cur) = flat_len m0"
    using get_all_params_of_arch[OF w' tr', of True] arch_same(1)[OF ar] by auto
  define pg' where "pg' = map2 (+) pg (map (\<lambda>d. ?a * d) (map2 (-) (elems sp) (elems cur)))"
  define c' where "c' = c\<lparr>model := Some m', prev_grads := Some pg', optimizer := Some opt'\<rparr>"
  have fin: "fit_finish c ?epochs ?a sp (opt', m', rl) =
               Inr (c', rl / real_of_int (?epochs * int (length (batches (train_set c)))))"
    using cur spl curl assms(8,9,10)
    by (simp add: fit_finish_def vec_zip_def vec_scale_def pg'_def c'_def)
  have "fit tr c override =
          Inr (c', rl / real_of_int (?epochs * int (length (batches (train_set c)))))"
    using assms(2,6,7,8) sp ep fin
    by (simp add: fit_def Let_def m1 opt_def)
  moreover have "model c' = Some m'" and "prev_grads c' = Some pg'"
    by (simp_all add: c'_def)
  ultimately show ?thesis
    using sp spa cur cura unfolding pg'_def by blast
qed


lemma keeps_arch_example: "keeps_arch example_trainer"
proof -
  have "wf_module m' \<and> arch m' = arch m"
    if wf: "wf_module m" and m': "m' = snd (backward_step example_trainer opt m b pen)"
    for m m' :: module and opt b pen
  proof -
    define g where "g = (\<lambda>(k :: string, p :: param).
                           (k, p\<lparr>val := \<lparr> shape = shape (val p),
                                           data = map (\<lambda>x. 1 :: real) (data (val p)) \<rparr>\<rparr>))"
    have np: "named_parameters m' = map g (named_parameters m)"
      and nb: "named_buffers m' = named_buffers m"
      unfolding m' g_def by (simp_all add: example_trainer_def)
    have keys: "map fst (map g ps) = map fst ps" for ps
      by (induction ps) (auto simp: g_def)
    have ar: "arch m' = arch m"
      unfolding arch_def np nb by (auto simp: g_def)
    have d: "distinct (map fst (state_dict_of m'))"
      using wf unfolding wf_module_def keys_state_dict_of np nb keys by simp
    have wp: "\<forall>(k, p) \<in> set (named_parameters m). wf_tensor (val p)"
      by (rule wf_module_params(2)[OF wf])
    have wb: "\<forall>(k, t) \<in> set (named_buffers m). wf_tensor t"
      using wf by (auto simp: wf_module_def state_dict_of_def list_all_iff)
    have w: "list_all (\<lambda>(k, t). wf_tensor t) (state_dict_of m')"
      unfolding state_dict_of_def np nb using wp wb
      by (auto simp: list_all_iff g_def wf_tensor_def numel_def)
    show ?thesis
      using ar d w by (simp add: wf_module_def)
  qed
  then show ?thesis
    unfolding keeps_arch_def by blast
qed

theorem fit_updates_prev_grads_witness:
  "keeps_arch example_trainer \<and> wf_module zero_module \<and>
   get_all_params_of zero_module True = Some \<lparr> elems = [0, 0], attached = False \<rparr> \<and>
   (\<exists>c' loss m'.
      fit example_trainer
        ((example_client 0 10)\<lparr>model := Some zero_module, weight := Some 1,
                                prev_grads := Some [0, 0]\<rparr>) 0 = Inr (c', loss) \<and>
      model c' = Some m' \<and>
      get_all_params_of m' True = Some \<lparr> elems = [1, 1], attached = False \<rparr> \<and>
      prev_grads c' = Some [- (1 / 10), - (1 / 10)])"
proof -
  let ?c = "(example_client 0 10)\<lparr>model := Some zero_module, weight := Some 1,
                                  prev_grads := Some [0, 0]\<rparr>"
  have wf: "wf_module zero_module"
    by (simp add: wf_module_def zero_module_def state_dict_of_def wf_tensor_def numel_def)
  have sp: "get_all_params_of zero_module True = Some \<lparr> elems = [0, 0], attached = False \<rparr>"
    by (simp add: get_all_params_of_def zero_module_def parameters_def flat_piece_def)
  have h4: "parameters zero_module \<noteq> []"
    and h5: "\<forall>p \<in> set (parameters zero_module). requires_grad p"
    and h9: "length [0, 0 :: real] = flat_len zero_module"
    by (simp_all add: parameters_def zero_module_def flat_len_def trainable_def numel_def)
  have h10: "(if (0 :: int) > 0 then 0 else local_epochs ?c) * int (length (batches (train_set ?c))) \<noteq> 0"
    by (simp add: example_client_def)
  have h2: "model ?c = Some zero_module" and h6: "weight ?c = Some 1"
    and h8: "prev_grads ?c = Some [0, 0]" and al: "alpha ?c = 1 / 10"
    by (simp_all add: example_client_def)
  have h7: "(1 :: real) \<noteq> 0" by simp
  from fit_updates_prev_grads[OF keeps_arch_example h2 wf h4 h5 h6 h7 h8 h9 h10]
  obtain c' loss m' server_params curr_params where
    f: "fit example_trainer ?c 0 = Inr (c', loss)"
    and s: "get_all_params_of zero_module True = Some server_params"
    and m: "model c' = Some m'"
    and cu: "get_all_params_of m' True = Some curr_params"
    and pg: "prev_grads c' = Some (map2 (+) [0, 0]
                    (map (\<lambda>d. alpha ?c / 1 * d)
                       (map2 (-) (elems server_params) (elems curr_params))))"
    by (elim exE conjE)
  have ev: "fit example_trainer ?c 0 =
      Inr (?c\<lparr>model := Some \<lparr> named_parameters =
                  [(''w'', \<lparr> val = \<lparr> shape = [2], data = [1, 1] \<rparr>, requires_grad = True \<rparr>)],
                  named_buffers = [] \<rparr>,
              prev_grads := Some [- (1 / 10), - (1 / 10)], optimizer := Some ()\<rparr>, 0)"
    by (simp add: fit_def fit_finish_def fit_minibatch_def example_client_def zero_module_def
        example_trainer_def get_all_params_of_def parameters_def flat_piece_def
        set_requires_grad_def vec_zip_def vec_neg_def vec_scale_def Let_def)
  have m'': "m' = \<lparr> named_parameters =
                  [(''w'', \<lparr> val = \<lparr> shape = [2], data = [1, 1] \<rparr>, requires_grad = True \<rparr>)],
                  named_buffers = [] \<rparr>"
    using f m unfolding ev by auto
  have cu': "get_all_params_of m' True = Some \<lparr> elems = [1, 1], attached = False \<rparr>"
    unfolding m'' by (simp add: get_all_params_of_def parameters_def flat_piece_def)
  have pg': "prev_grads c' = Some [- (1 / 10), - (1 / 10)]"
    using pg s cu unfolding sp cu' al by auto
  show ?thesis
    using keeps_arch_example wf sp f m cu' pg' by blast
qed


lemma map2_neg_add: "map2 (+) (map uminus xs) ys = map2 (-) ys (xs :: real list)"
  by (induction xs arbitrary: ys) (auto simp: zip_Cons1 split: list.splits)

lemma update_append_mid:
  "k \<notin> fst ` set pre \<Longrightarrow> AList.update k v (pre @ (k, x) # rest) = pre @ (k, v) # rest"
  by (induction pre) auto

lemma map_of_append_mid:
  "k \<notin> fst ` set pre \<Longrightarrow> map_of (pre @ (k, x) # rest) k = Some x"
  by (induction pre) auto

lemma load_loop_unflatten:
  "distinct (map fst (pre @ rest)) \<Longrightarrow> \<forall>(k, p) \<in> set rest. wf_tensor (val p) \<Longrightarrow>
   sum_list (map (\<lambda>p. length (data (val p))) (filter requires_grad (map snd rest)))
     \<le> length v - idx \<Longrightarrow>
   load_all_params_loop (Some v) idx (pre @ rest) rest = Inr (pre @ unflatten (drop idx v) rest)"
proof (induction rest arbitrary: pre idx)
  case Nil
  then show ?case by simp
next
  case (Cons a rest)
  obtain k p where a: "a = (k, p)" by (cases a)
  have d': "distinct (map fst ((pre @ [(k, q)]) @ rest))" for q
    using Cons.prems(1) a by simp
  have wf': "\<forall>(k, p) \<in> set rest. wf_tensor (val p)"
    using Cons.prems(2) by simp
  show ?case
  proof (cases "requires_grad p")
    case False
    have "load_all_params_loop (Some v) idx ((pre @ [(k, p)]) @ rest) rest =
            Inr ((pre @ [(k, p)]) @ unflatten (drop idx v) rest)"
      using Cons.IH[OF d' wf', of idx p] Cons.prems(3) a False by simp
    then show ?thesis
      using a False by simp
  next
    case True
    let ?len = "length (data (val p))"
    let ?slice = "take ?len (drop idx v)"
    let ?p' = "p\<lparr>val := \<lparr> shape = shape (val p), data = ?slice \<rparr>\<rparr>"
    have knp: "k \<notin> fst ` set pre"
      using Cons.prems(1) a by auto
    have enough: "?len \<le> length v - idx"
      and rest_enough: "sum_list (map (\<lambda>p. length (data (val p)))
                           (filter requires_grad (map snd rest))) \<le> length v - (idx + ?len)"
      using Cons.prems(3) a True by simp_all
    have ls: "length ?slice = numel (val p)"
      using enough Cons.prems(2) a by (simp add: wf_tensor_def)
    have mo: "map_of (pre @ (k, p) # rest) k = Some p"
      by (rule map_of_append_mid[OF knp])
    have up: "AList.update k ?p' (pre @ (k, p) # rest) = (pre @ [(k, ?p')]) @ rest"
      using update_append_mid[OF knp] by simp
    have IH: "load_all_params_loop (Some v) (idx + ?len) ((pre @ [(k, ?p')]) @ rest) rest =
            Inr ((pre @ [(k, ?p')]) @ unflatten (drop (idx + ?len) v) rest)"
      by (rule Cons.IH[OF d' wf' rest_enough])
    have dd: "drop ?len (drop idx v) = drop (idx + ?len) v"
      by (simp add: add.commute)
    have "load_all_params_loop (Some v) idx (pre @ (k, p) # rest) ((k, p) # rest) =
            load_all_params_loop (Some v) (idx + ?len) ((pre @ [(k, ?p')]) @ rest) rest"
      unfolding load_all_params_loop.simps Let_def using True ls mo up by simp
    then show ?thesis
      unfolding a IH using True dd by simp
  qed
qed


lemma unflatten_keys: "map fst (unflatten v ps) = map fst ps"
  by (induction v ps rule: unflatten.induct) auto

lemma unflatten_arch:
  "map (\<lambda>(k, p). (k, shape (val p), requires_grad p)) (unflatten v ps) =
   map (\<lambda>(k, p). (k, shape (val p), requires_grad p)) ps"
  by (induction v ps rule: unflatten.induct) auto

lemma unflatten_flat:
  "sum_list (map (\<lambda>p. length (data (val p))) (filter requires_grad (map snd ps))) \<le> length v \<Longrightarrow>
   concat (map (\<lambda>p. data (val p)) (filter requires_grad (map snd (unflatten v ps)))) =
     take (sum_list (map (\<lambda>p. length (data (val p))) (filter requires_grad (map snd ps)))) v"
proof (induction v ps rule: unflatten.induct)
  case (1 v)
  then show ?case by simp
next
  case (2 v k p rest)
  show ?case
  proof (cases "requires_grad p")
    case True
    then show ?thesis
      using 2 by (simp add: take_add)
  next
    case False
    then show ?thesis using 2 by simp
  qed
qed

lemma unflatten_wf:
  "\<forall>(k, p) \<in> set ps. wf_tensor (val p) \<Longrightarrow>
   sum_list (map (\<lambda>p. length (data (val p))) (filter requires_grad (map snd ps))) \<le> length v \<Longrightarrow>
   \<forall>(k, p) \<in> set (unflatten v ps). wf_tensor (val p)"
proof (induction v ps rule: unflatten.induct)
  case (1 v)
  then show ?case by simp
next
  case (2 v k p rest)
  have wfp: "wf_tensor (val p)" and wfr: "\<forall>(k, p) \<in> set rest. wf_tensor (val p)"
    using "2.prems"(1) by simp_all
  show ?case
  proof (cases "requires_grad p")
    case True
    let ?len = "length (data (val p))"
    have le: "?len \<le> length v"
      and le': "sum_list (map (\<lambda>p. length (data (val p))) (filter requires_grad (map snd rest)))
                  \<le> length (drop ?len v)"
      using "2.prems"(2) True by simp_all
    have hd: "wf_tensor \<lparr> shape = shape (val p), data = take ?len v \<rparr>"
      using wfp le by (simp add: wf_tensor_def numel_def)
    have tl: "\<forall>(k, p) \<in> set (unflatten (drop ?len v) rest). wf_tensor (val p)"
      by (rule "2.IH"(1)[OF True wfr le'])
    show ?thesis
      using True hd tl by simp
  next
    case False
    have le': "sum_list (map (\<lambda>p. length (data (val p))) (filter requires_grad (map snd rest)))
                  \<le> length v"
      using "2.prems"(2) False by simp
    have tl: "\<forall>(k, p) \<in> set (unflatten v rest). wf_tensor (val p)"
      by (rule "2.IH"(2)[OF False wfr le'])
    show ?thesis
      using False wfp tl by simp
  qed
qed

lemma param_val_update_eq: "requires_grad p = requires_grad q \<Longrightarrow> p\<lparr>val := val q\<rparr> = (q :: param)"
  by (cases p; cases q) simp

lemma load_lookup_map:
  fixes ps ps' :: "(string \<times> param) list"
  shows "\<forall>(k, p') \<in> set ps'. map_of sd k = Some (val p') \<Longrightarrow>
   map (\<lambda>(k, p). (k, requires_grad p)) ps = map (\<lambda>(k, p). (k, requires_grad p)) ps' \<Longrightarrow>
   map (\<lambda>(k, p). (k, case map_of sd k of None \<Rightarrow> p | Some t' \<Rightarrow> p\<lparr>val := t'\<rparr>)) ps = ps'"
proof (induction ps arbitrary: ps')
  case Nil
  then show ?case by simp
next
  case (Cons a ps)
  obtain k p where a: "a = (k, p)" by (cases a)
  obtain b qs where ps': "ps' = b # qs"
    using Cons.prems(2) by (cases ps') auto
  obtain k' q where b: "b = (k', q)" by (cases b)
  have kk: "k' = k" and rg: "requires_grad p = requires_grad q"
    and tl: "map (\<lambda>(k, p). (k, requires_grad p)) ps = map (\<lambda>(k, p). (k, requires_grad p)) qs"
    using Cons.prems(2) unfolding ps' a b by simp_all
  have lk: "map_of sd k = Some (val q)"
    using Cons.prems(1) unfolding ps' b kk by simp
  have rest: "\<forall>(k, p') \<in> set qs. map_of sd k = Some (val p')"
    using Cons.prems(1) unfolding ps' by simp
  have hd: "(case map_of sd k of None \<Rightarrow> p | Some t' \<Rightarrow> p\<lparr>val := t'\<rparr>) = q"
    unfolding lk using param_val_update_eq[OF rg] by simp
  show ?case
    unfolding ps' a b kk using Cons.IH[OF rest tl] hd by simp
qed

lemma load_state_dict_params:
  assumes "wf_module m"
    and "map (\<lambda>(k, p). (k, shape (val p), requires_grad p)) ps' =
         map (\<lambda>(k, p). (k, shape (val p), requires_grad p)) (named_parameters m)"
  shows "load_state_dict False m (map (\<lambda>(k, p). (k, val p)) ps') =
           Inr (m\<lparr>named_parameters := ps'\<rparr>)"
proof -
  let ?sd = "map (\<lambda>(k, p). (k, val p)) ps'"
  have keys: "map fst ps' = map fst (named_parameters m)"
    using arg_cong[OF assms(2), of "map fst"] by (simp add: case_prod_beta comp_def)
  have "map (\<lambda>x. (fst x, requires_grad (snd x))) ps' =
        map (\<lambda>x. (fst x, requires_grad (snd x))) (named_parameters m)"
    using arg_cong[OF assms(2), of "map (\<lambda>(k, s, g). (k, g))"]
    by (simp add: case_prod_beta comp_def)
  then have flags: "map (\<lambda>(k, p). (k, requires_grad p)) (named_parameters m) =
               map (\<lambda>(k, p). (k, requires_grad p)) ps'"
    unfolding case_prod_beta by (rule sym)
  have dist: "distinct (map fst ps')"
    using wf_module_params(1)[OF assms(1)] keys by simp
  have look: "\<forall>(k, p') \<in> set ps'. map_of ?sd k = Some (val p')"
    using dist by (auto simp: map_of_param_vals)
  have shp: "\<And>k p. (k, p) \<in> set (named_parameters m) \<Longrightarrow>
               \<exists>p' :: param. map_of ?sd k = Some (val p') \<and> shape (val p') = shape (val p)"
  proof -
    fix k p assume kp: "(k, p) \<in> set (named_parameters m)"
    then have "(k, shape (val p), requires_grad p) \<in>
                 set (map (\<lambda>(k, p). (k, shape (val p), requires_grad p)) ps')"
      unfolding assms(2) by force
    then obtain p' where in': "(k, p') \<in> set ps'" and sh: "shape (val p') = shape (val p)"
      by auto
    have "map_of ?sd k = Some (val p')"
      using look in' by blast
    then show "\<exists>p' :: param. map_of ?sd k = Some (val p') \<and> shape (val p') = shape (val p)"
      using sh by blast
  qed
  have buf: "\<And>k t. (k, t) \<in> set (named_buffers m) \<Longrightarrow> map_of ?sd k = None"
  proof -
    fix k t assume "(k, t) \<in> set (named_buffers m)"
    then have "k \<notin> fst ` set (named_parameters m)"
      using wf_module_params(3)[OF assms(1)] by auto
    then have "k \<notin> fst ` set ps'"
      using keys by (metis list.set_map)
    then show "map_of ?sd k = None"
      by (auto simp: map_of_param_vals map_of_eq_None_iff)
  qed
  have ok: "\<not> list_ex (\<lambda>(k, t). case map_of ?sd k of None \<Rightarrow> False
                                  | Some t' \<Rightarrow> shape t' \<noteq> shape t) (state_dict_of m)"
  proof
    assume "list_ex (\<lambda>(k, t). case map_of ?sd k of None \<Rightarrow> False
                                  | Some t' \<Rightarrow> shape t' \<noteq> shape t) (state_dict_of m)"
    then obtain k t t' where mem: "(k, t) \<in> set (state_dict_of m)"
      and lk: "map_of ?sd k = Some t'" and ne: "shape t' \<noteq> shape t"
      by (auto simp: list_ex_iff split: option.splits)
    from mem consider p where "(k, p) \<in> set (named_parameters m)" "t = val p"
      | "(k, t) \<in> set (named_buffers m)"
      by (auto simp: state_dict_of_def)
    then show False
    proof cases
      case 1
      then show ?thesis using shp[OF 1(1)] lk ne by auto
    next
      case 2
      then show ?thesis using buf[OF 2] lk by simp
    qed
  qed
  have p1: "map (\<lambda>(k, p). (k, case map_of ?sd k of None \<Rightarrow> p | Some t' \<Rightarrow> p\<lparr>val := t'\<rparr>))
              (named_parameters m) = ps'"
    by (rule load_lookup_map[OF look flags])
  have p2: "map (\<lambda>(k, t). (k, case map_of ?sd k of None \<Rightarrow> t | Some t' \<Rightarrow> t'))
              (named_buffers m) = named_buffers m"
    by (rule map_idI) (auto simp: buf)
  show ?thesis
    unfolding load_state_dict_def using ok by (simp add: p1 p2)
qed


lemma flat_len_data:
  assumes "wf_module m"
  shows "sum_list (map (\<lambda>p. length (data (val p))) (filter requires_grad (map snd (named_parameters m))))
           = flat_len m"
proof -
  have "\<forall>p \<in> set (trainable m). length (data (val p)) = numel (val p)"
    using wf_module_trainable[OF assms] by (simp add: wf_tensor_def)
  then have "map (\<lambda>p. length (data (val p))) (trainable m) = map (\<lambda>p. numel (val p)) (trainable m)"
    by simp
  then have "sum_list (map (\<lambda>p. length (data (val p))) (trainable m)) = flat_len m"
    unfolding flat_len_def by (rule arg_cong)
  then show ?thesis
    unfolding trainable_def parameters_def .
qed

lemma load_all_params_unflatten:
  assumes "wf_module m" and "flat_len m \<le> length v"
  shows "load_all_params m (Some v) = Inr (m\<lparr>named_parameters := unflatten v (named_parameters m)\<rparr>)"
proof -
  have d: "distinct (map fst ([] @ named_parameters m))"
    using wf_module_params(1)[OF assms(1)] by simp
  have le: "sum_list (map (\<lambda>p. length (data (val p)))
               (filter requires_grad (map snd (named_parameters m)))) \<le> length v - 0"
    using assms(2) flat_len_data[OF assms(1)] by simp
  have loop: "load_all_params_loop (Some v) 0 (named_parameters m) (named_parameters m) =
                Inr (unflatten v (named_parameters m))"
    using load_loop_unflatten[OF d wf_module_params(2)[OF assms(1)] le] by simp
  show ?thesis
    unfolding load_all_params_def loop
    using load_state_dict_params[OF assms(1) unflatten_arch] by simp
qed

lemma unflatten_module:
  assumes "wf_module m" and "flat_len m \<le> length v"
  defines "m' \<equiv> m\<lparr>named_parameters := unflatten v (named_parameters m)\<rparr>"
  shows "wf_module m'" and "arch m' = arch m"
    and "trainable m \<noteq> [] \<Longrightarrow>
           get_all_params_of m' True = Some \<lparr> elems = take (flat_len m) v, attached = False \<rparr>"
proof -
  have le: "sum_list (map (\<lambda>p. length (data (val p)))
               (filter requires_grad (map snd (named_parameters m)))) \<le> length v"
    using assms(2) flat_len_data[OF assms(1)] by simp
  have ar: "arch m' = arch m"
    unfolding arch_def m'_def by (simp add: unflatten_arch)
  then show "arch m' = arch m" .
  have d: "distinct (map fst (state_dict_of m'))"
    using assms(1) unfolding wf_module_def keys_state_dict_of m'_def
    by (simp add: unflatten_keys)
  have wp: "\<forall>(k, p) \<in> set (named_parameters m'). wf_tensor (val p)"
    unfolding m'_def using unflatten_wf[OF wf_module_params(2)[OF assms(1)] le] by simp
  have wb: "\<forall>(k, t) \<in> set (named_buffers m'). wf_tensor t"
    using assms(1) unfolding m'_def by (auto simp: wf_module_def state_dict_of_def list_all_iff)
  have w: "list_all (\<lambda>(k, t). wf_tensor t) (state_dict_of m')"
    unfolding state_dict_of_def using wp wb by (auto simp: list_all_iff)
  show wf': "wf_module m'"
    using d w by (simp add: wf_module_def)
  show "get_all_params_of m' True = Some \<lparr> elems = take (flat_len m) v, attached = False \<rparr>"
    if tr: "trainable m \<noteq> []"
  proof -
    have tr': "trainable m' \<noteq> []"
      using arch_same(2)[OF ar] tr by simp
    have "concat (map (\<lambda>p. data (val p)) (trainable m')) = take (flat_len m) v"
      using unflatten_flat[OF le] flat_len_data[OF assms(1)]
      by (simp add: trainable_def parameters_def m'_def)
    then show ?thesis
      using tr' by (simp add: get_all_params_of_eq)
  qed
qed


lemma reported_grads_Cons:
  "reported_grads (c # cs) =
     (case prev_grads c of None \<Rightarrow> reported_grads cs | Some g \<Rightarrow> g # reported_grads cs)"
  by (simp add: reported_grads_def split: option.splits)

lemma receive_grads_eq:
  fixes cs :: "('o, 'b) client list"
  assumes "list_all (\<lambda>(r, m). msg_type m \<noteq> ''grads'') P"
  shows "\<forall>g \<in> set (reported_grads cs). length g = L \<Longrightarrow>
         (case acc of None \<Rightarrow> True | Some a \<Rightarrow> length a = L) \<Longrightarrow>
         receive_grads \<lparr> pending = P @ map grads_message cs, history = H \<rparr> cs acc n =
           Inr (fold (\<lambda>g a. case a of None \<Rightarrow> Some g | Some x \<Rightarrow> Some (map2 (+) x g))
                  (reported_grads cs) acc,
                n + length (reported_grads cs),
                \<lparr> pending = P,
                  history = H @ map (\<lambda>c. Received (Client (index c)) Server ''grads'') cs \<rparr>)"
proof (induction cs arbitrary: acc n H)
  case Nil
  then show ?case by (simp add: reported_grads_def)
next
  case (Cons c cs)
  have rc: "receive \<lparr> pending = P @ grads_message c # map grads_message cs, history = H \<rparr>
              Server (Client (index c)) ''grads'' =
            Inr (\<lparr> payload = Grads (prev_grads c), msg_type = ''grads'', sender = Client (index c) \<rparr>,
                 \<lparr> pending = P @ map grads_message cs,
                   history = H @ [Received (Client (index c)) Server ''grads''] \<rparr>)"
    using take_message_first[OF assms, of _ "Client (index c)" Server]
    by (simp add: receive_def grads_message_def)
  show ?case
  proof (cases "prev_grads c")
    case None
    have all: "\<forall>g \<in> set (reported_grads cs). length g = L"
      using Cons.prems(1) None by (simp add: reported_grads_Cons)
    show ?thesis
      using Cons.IH[OF all Cons.prems(2), of "H @ [Received (Client (index c)) Server ''grads'']" n]
      by (simp add: rc None reported_grads_Cons)
  next
    case (Some g)
    have gl: "length g = L" and all: "\<forall>g \<in> set (reported_grads cs). length g = L"
      using Cons.prems(1) Some by (simp_all add: reported_grads_Cons)
    show ?thesis
    proof (cases acc)
      case None
      have a': "case Some g of None \<Rightarrow> True | Some a \<Rightarrow> length a = L"
        using gl by simp
      show ?thesis
        using Cons.IH[OF all a', of "H @ [Received (Client (index c)) Server ''grads'']" "n + 1"]
        by (simp add: rc Some None reported_grads_Cons)
    next
      case (Some a)
      have al: "length a = L"
        using Cons.prems(2) Some by simp
      have a': "case Some (map2 (+) a g) of None \<Rightarrow> True | Some a \<Rightarrow> length a = L"
        using gl al by simp
      show ?thesis
        using Cons.IH[OF all a', of "H @ [Received (Client (index c)) Server ''grads'']" "n + 1"]
        by (simp add: rc \<open>prev_grads c = Some g\<close> Some reported_grads_Cons vec_zip_def gl al)
    qed
  qed
qed

lemma fold_sum_Some:
  "\<forall>g \<in> set gs. length g = L \<Longrightarrow> length a = L \<Longrightarrow>
   fold (\<lambda>g a. case a of None \<Rightarrow> Some g | Some x \<Rightarrow> Some (map2 (+) x g)) gs (Some a) =
     Some (map (\<lambda>i. a ! i + (\<Sum>g\<leftarrow>gs. (g ! i :: real))) [0..<L])"
proof (induction gs arbitrary: a)
  case Nil
  have "map ((!) a) [0..<length a] = a" by (rule map_nth)
  then show ?case using Nil by simp
next
  case (Cons g gs)
  have gl: "length g = L" and all: "\<forall>g \<in> set gs. length g = L"
    using Cons.prems(1) by simp_all
  have len: "length (map2 (+) a g) = L"
    using gl Cons.prems(2) by simp
  have "map (\<lambda>i. map2 (+) a g ! i + (\<Sum>g\<leftarrow>gs. g ! i)) [0..<L] =
        map (\<lambda>i. a ! i + (\<Sum>g\<leftarrow>g # gs. g ! i)) [0..<L]"
    by (rule map_cong) (use gl Cons.prems(2) in \<open>simp_all add: add.assoc\<close>)
  then show ?case
    using Cons.IH[OF all len] by simp
qed

lemma fold_sum_None:
  assumes "\<forall>g \<in> set gs. length g = L" and "gs \<noteq> []"
  shows "fold (\<lambda>g a. case a of None \<Rightarrow> Some g | Some x \<Rightarrow> Some (map2 (+) x g)) gs None =
           Some (map (\<lambda>i. \<Sum>g\<leftarrow>gs. (g ! i :: real)) [0..<L])"
proof -
  obtain g gs' where gs: "gs = g # gs'"
    using assms(2) by (cases gs) auto
  have gl: "length g = L" and all: "\<forall>g \<in> set gs'. length g = L"
    using assms(1) gs by simp_all
  show ?thesis
    unfolding gs using fold_sum_Some[OF all gl] by simp
qed


lemma load_state_dict_result:
  assumes "load_state_dict strict m sd = Inr m'"
  shows "named_parameters m' =
           map (\<lambda>(k, p). (k, case map_of sd k of None \<Rightarrow> p | Some t' \<Rightarrow> p\<lparr>val := t'\<rparr>))
             (named_parameters m)"
    and "named_buffers m' =
           map (\<lambda>(k, t). (k, case map_of sd k of None \<Rightarrow> t | Some t' \<Rightarrow> t')) (named_buffers m)"
    and "\<And>k p t'. (k, p) \<in> set (named_parameters m) \<Longrightarrow> map_of sd k = Some t' \<Longrightarrow>
           shape t' = shape (val p)"
    and "\<And>k t t'. (k, t) \<in> set (named_buffers m) \<Longrightarrow> map_of sd k = Some t' \<Longrightarrow>
           shape t' = shape t"
proof -
  have ok: "\<not> list_ex (\<lambda>(k, t). case map_of sd k of None \<Rightarrow> False
                                  | Some t' \<Rightarrow> shape t' \<noteq> shape t) (state_dict_of m)"
    and res: "m' = \<lparr> named_parameters =
                    map (\<lambda>(k, p). (k, case map_of sd k of None \<Rightarrow> p
                                       | Some t' \<Rightarrow> p\<lparr>val := t'\<rparr>)) (named_parameters m),
                 named_buffers =
                    map (\<lambda>(k, t). (k, case map_of sd k of None \<Rightarrow> t
                                       | Some t' \<Rightarrow> t')) (named_buffers m) \<rparr>"
    using assms by (auto simp: load_state_dict_def split: if_splits)
  show "named_parameters m' =
           map (\<lambda>(k, p). (k, case map_of sd k of None \<Rightarrow> p | Some t' \<Rightarrow> p\<lparr>val := t'\<rparr>))
             (named_parameters m)"
    and "named_buffers m' =
           map (\<lambda>(k, t). (k, case map_of sd k of None \<Rightarrow> t | Some t' \<Rightarrow> t')) (named_buffers m)"
    unfolding res by simp_all
  have all: "\<And>k t t'. (k, t) \<in> set (state_dict_of m) \<Longrightarrow> map_of sd k = Some t' \<Longrightarrow>
               shape t' = shape t"
    using ok unfolding list_ex_iff by fastforce
  show "\<And>k p t'. (k, p) \<in> set (named_parameters m) \<Longrightarrow> map_of sd k = Some t' \<Longrightarrow>
           shape t' = shape (val p)"
    by (rule all) (auto simp: state_dict_of_def intro: rev_image_eqI)
  show "\<And>k t t'. (k, t) \<in> set (named_buffers m) \<Longrightarrow> map_of sd k = Some t' \<Longrightarrow>
           shape t' = shape t"
    by (rule all) (auto simp: state_dict_of_def)
qed

lemma load_state_dict_arch:
  assumes "load_state_dict strict m sd = Inr m'"
  shows "arch m' = arch m"
proof -
  note r = load_state_dict_result[OF assms]
  have p: "map (\<lambda>(k, p). (k, shape (val p), requires_grad p)) (named_parameters m') =
           map (\<lambda>(k, p). (k, shape (val p), requires_grad p)) (named_parameters m)"
    unfolding r(1) map_map
    by (rule map_cong) (auto split: option.splits dest: r(3))
  have b: "map (\<lambda>(k, t). (k, shape t)) (named_buffers m') =
           map (\<lambda>(k, t). (k, shape t)) (named_buffers m)"
    unfolding r(2) map_map
    by (rule map_cong) (auto split: option.splits dest: r(4))
  show ?thesis
    unfolding arch_def p b ..
qed

lemma load_state_dict_wf:
  assumes "load_state_dict strict m sd = Inr m'" and "wf_module m"
    and "list_all (\<lambda>(k, t). wf_tensor t) sd"
  shows "wf_module m'"
proof -
  note r = load_state_dict_result[OF assms(1)]
  have sdwf: "\<And>k t'. map_of sd k = Some t' \<Longrightarrow> wf_tensor t'"
    using assms(3) by (auto simp: list_all_iff dest: map_of_SomeD)
  have kp: "map fst (named_parameters m') = map fst (named_parameters m)"
    unfolding r(1) by (induction "named_parameters m") (auto simp: case_prod_beta)
  have kb: "map fst (named_buffers m') = map fst (named_buffers m)"
    unfolding r(2) by (induction "named_buffers m") (auto simp: case_prod_beta)
  have d: "distinct (map fst (state_dict_of m'))"
    using assms(2) unfolding wf_module_def keys_state_dict_of kp kb by simp
  have wp0: "\<forall>(k, p) \<in> set (named_parameters m). wf_tensor (val p)"
    by (rule wf_module_params(2)[OF assms(2)])
  have wb0: "\<forall>(k, t) \<in> set (named_buffers m). wf_tensor t"
    using assms(2) by (auto simp: wf_module_def state_dict_of_def list_all_iff)
  have wp: "\<forall>(k, p) \<in> set (named_parameters m'). wf_tensor (val p)"
    unfolding r(1) using wp0 sdwf by (auto split: option.splits)
  have wb: "\<forall>(k, t) \<in> set (named_buffers m'). wf_tensor t"
    unfolding r(2) using wb0 sdwf by (auto split: option.splits)
  have w: "list_all (\<lambda>(k, t). wf_tensor t) (state_dict_of m')"
    unfolding state_dict_of_def using wp wb by (auto simp: list_all_iff)
  show ?thesis
    using d w by (simp add: wf_module_def)
qed


text \<open>
  Claim C5. Let the global and the cloud model be well-formed with the same architecture
  and a trainable parameter, let the aggregated state load into the global model, and
  let the channel hold the surrogate message of each eligible client, at least one
  surrogate reported and each as long as the flattened parameters. Then
  \<open>FedDynServer_aggregate\<close> returns; the averaged surrogate is the arithmetic mean of the
  reported surrogates, each counted once; and the flattened trainable parameters of the
  new cloud model are those of the new global model plus that mean, in a cloud model of
  unchanged architecture and buffers.
\<close>

theorem aggregate_cloud_model:
  fixes srv :: "('o, 'b) feddyn_server"
  assumes "wf_module (server_model srv)" and "wf_module (cld_mdl srv)"
    and "arch (cld_mdl srv) = arch (server_model srv)"
    and "trainable (server_model srv) \<noteq> []"
    and "gw srv eligible = Inr weights"
    and "am (server_model srv) client_models weights (lr srv) = Inr agg_model_sd"
    and "load_state_dict True (server_model srv) agg_model_sd = Inr model'"
    and "list_all (\<lambda>(k, t). wf_tensor t) agg_model_sd"
    and "pending (chan srv) = P @ map grads_message eligible"
    and "list_all (\<lambda>(r, m). msg_type m \<noteq> ''grads'') P"
    and "reported_grads eligible \<noteq> []"
    and "\<forall>g \<in> set (reported_grads eligible). length g = flat_len (server_model srv)"
  shows "\<exists>srv' f.
           FedDynServer_aggregate gw am srv eligible client_models
             = Inr srv' \<and>
           server_model srv' = model' \<and>
           get_all_params_of model' True = Some f \<and>
           get_all_params_of (cld_mdl srv') True =
             Some \<lparr> elems = map2 (+) (elems f)
                                (mean_vec (flat_len (server_model srv)) (reported_grads eligible)),
                    attached = False \<rparr> \<and>
           arch (cld_mdl srv') = arch (cld_mdl srv) \<and>
           named_buffers (cld_mdl srv') = named_buffers (cld_mdl srv) \<and>
           pending (chan srv') = P"
proof -
  let ?L = "flat_len (server_model srv)"
  let ?gs = "reported_grads eligible"
  let ?step = "\<lambda>g a. case a of None \<Rightarrow> Some g | Some x \<Rightarrow> Some (map2 (+) x (g :: real list))"
  define ch' where "ch' = \<lparr> pending = P,
      history = history (chan srv) @
                map (\<lambda>c. Received (Client (index c)) Server ''grads'') eligible \<rparr>"
  define total where "total = map (\<lambda>i. \<Sum>g\<leftarrow>?gs. g ! i) [0..<?L]"
  have ch: "chan srv = \<lparr> pending = P @ map grads_message eligible, history = history (chan srv) \<rparr>"
    using assms(9) by (cases "chan srv") simp
  have rg0: "receive_grads \<lparr> pending = P @ map grads_message eligible, history = history (chan srv) \<rparr>
              eligible None 0 = Inr (fold ?step ?gs None, 0 + length ?gs, ch')"
    unfolding ch'_def by (rule receive_grads_eq[OF assms(10,12)]) simp
  have rg: "receive_grads (chan srv) eligible None 0 = Inr (Some total, length ?gs, ch')"
    using rg0 fold_sum_None[OF assms(12,11)] unfolding total_def ch[symmetric] by simp
  have n0: "length ?gs > 0"
    using assms(11) by simp
  have avg: "map (\<lambda>x. x / real (length ?gs)) total = mean_vec ?L ?gs"
    unfolding total_def mean_vec_def by simp
  have ar': "arch model' = arch (server_model srv)"
    by (rule load_state_dict_arch[OF assms(7)])
  have wf': "wf_module model'"
    by (rule load_state_dict_wf[OF assms(7,1,8)])
  have tr': "trainable model' \<noteq> []"
    using arch_same(2)[OF ar'] assms(4) by simp
  obtain f where f: "get_all_params_of model' True = Some f"
    and fl: "length (elems f) = ?L"
    using get_all_params_of_arch[OF wf' tr', of True] arch_same(1)[OF ar'] by auto
  define v where "v = map2 (+) (elems f) (mean_vec ?L ?gs)"
  have ml: "length (mean_vec ?L ?gs) = ?L"
    by (simp add: mean_vec_def)
  have vz: "vec_zip (+) (elems f) (mean_vec ?L ?gs) = Inr v"
    using fl ml by (simp add: vec_zip_def v_def)
  have vl: "length v = ?L"
    using fl ml by (simp add: v_def)
  have cl: "flat_len (cld_mdl srv) = ?L"
    by (rule arch_same(1)[OF assms(3)])
  have trc: "trainable (cld_mdl srv) \<noteq> []"
    using arch_same(2)[OF assms(3)] assms(4) by simp
  define cld' where "cld' = (cld_mdl srv)\<lparr>named_parameters := unflatten v (named_parameters (cld_mdl srv))\<rparr>"
  have le: "flat_len (cld_mdl srv) \<le> length v"
    using cl vl by simp
  have ld: "load_all_params (cld_mdl srv) (Some v) = Inr cld'"
    unfolding cld'_def by (rule load_all_params_unflatten[OF assms(2) le])
  have g': "get_all_params_of cld' True = Some \<lparr> elems = v, attached = False \<rparr>"
    using unflatten_module(3)[OF assms(2) le trc] cl vl unfolding cld'_def by simp
  have a': "arch cld' = arch (cld_mdl srv)"
    unfolding cld'_def by (rule unflatten_module(2)[OF assms(2) le])
  have b': "named_buffers cld' = named_buffers (cld_mdl srv)"
    unfolding cld'_def by simp
  define srv' where "srv' = srv\<lparr>chan := ch', server_model := model', cld_mdl := cld'\<rparr>"
  have res: "FedDynServer_aggregate gw am srv eligible client_models
               = Inr srv'"
    unfolding FedDynServer_aggregate_def srv'_def
    using assms(5,6,7) rg n0 avg f vz ld by (simp add: Let_def)
  have s1: "server_model srv' = model'" and s2: "cld_mdl srv' = cld'"
    and s3: "pending (chan srv') = P"
    unfolding srv'_def ch'_def by simp_all
  show ?thesis
    using res s1 f g' a' b' s3 unfolding s2[symmetric] v_def by blast
qed


theorem aggregate_cloud_model_witness:
  "wf_module small_module \<and> trainable small_module \<noteq> [] \<and>
   reported_grads grads_clients = [[1, 1], [3, 5]] \<and>
   mean_vec 2 [[1, 1], [3, 5]] = [2, 3] \<and>
   (\<exists>srv'. FedDynServer_aggregate (\<lambda>srv el. Inr [1 / 2, 1 / 2])
              (\<lambda>m cms ws eta. Inr [(''w'', \<lparr> shape = [2], data = [10, 20] \<rparr>)])
              grads_server grads_clients [small_module, small_module] = Inr srv' \<and>
      get_all_params_of (server_model srv') True = Some \<lparr> elems = [10, 20], attached = False \<rparr> \<and>
      get_all_params_of (cld_mdl srv') True = Some \<lparr> elems = [12, 23], attached = False \<rparr>)"
proof -
  let ?gw = "\<lambda>(srv :: (unit, unit) feddyn_server) (el :: (unit, unit) client list).
               (Inr [1 / 2, 1 / 2] :: error + real list)"
  let ?am = "\<lambda>(m :: module) (cms :: module list) (ws :: real list) (eta :: real).
               (Inr [(''w'', \<lparr> shape = [2], data = [10, 20] \<rparr>)] :: error + state_dict)"
  let ?m' = "\<lparr> named_parameters =
                [(''w'', \<lparr> val = \<lparr> shape = [2], data = [10, 20] \<rparr>, requires_grad = True \<rparr>)],
              named_buffers = [] \<rparr>"
  have wf: "wf_module small_module"
    by (simp add: wf_module_def small_module_def state_dict_of_def wf_tensor_def numel_def)
  have tr: "trainable small_module \<noteq> []"
    by (simp add: trainable_def parameters_def small_module_def)
  have fl: "flat_len small_module = 2"
    by (simp add: flat_len_def trainable_def parameters_def small_module_def numel_def)
  have rp: "reported_grads grads_clients = [[1, 1], [3, 5]]"
    by (simp add: reported_grads_def grads_clients_def example_client_def)
  have mv: "mean_vec 2 [[1, 1], [3, 5]] = [2, 3]"
    by (simp add: mean_vec_def upt_rec numeral_2_eq_2)
  have a1: "wf_module (server_model grads_server)" and a2: "wf_module (cld_mdl grads_server)"
    and a3: "arch (cld_mdl grads_server) = arch (server_model grads_server)"
    and a4: "trainable (server_model grads_server) \<noteq> []"
    using wf tr by (simp_all add: grads_server_def)
  have a5: "?gw grads_server grads_clients = Inr [1 / 2, 1 / 2]" by simp
  have a6: "?am (server_model grads_server) [small_module, small_module] [1 / 2, 1 / 2]
              (lr grads_server) = Inr [(''w'', \<lparr> shape = [2], data = [10, 20] \<rparr>)]" by simp
  have a7: "load_state_dict True (server_model grads_server)
              [(''w'', \<lparr> shape = [2], data = [10, 20] \<rparr>)] = Inr ?m'"
    by (simp add: load_state_dict_def grads_server_def small_module_def state_dict_of_def)
  have a8: "list_all (\<lambda>(k, t). wf_tensor t) [(''w'', \<lparr> shape = [2], data = [10, 20] \<rparr>)]"
    by (simp add: wf_tensor_def numel_def)
  have a9: "pending (chan grads_server) = [] @ map grads_message grads_clients"
    by (simp add: grads_server_def)
  have a10: "list_all (\<lambda>(r, m). msg_type m \<noteq> ''grads'') []" by simp
  have a11: "reported_grads grads_clients \<noteq> []"
    using rp by simp
  have a12: "\<forall>g \<in> set (reported_grads grads_clients). length g = flat_len (server_model grads_server)"
    unfolding rp using fl by (simp add: grads_server_def)
  from aggregate_cloud_model[where client_models = "[small_module, small_module]"
      and gw = ?gw and am = ?am,
      OF a1 a2 a3 a4 a5 a6 a7 a8 a9 a10 a11 a12]
  obtain srv' f where
    r: "FedDynServer_aggregate ?gw ?am grads_server grads_clients [small_module, small_module]
          = Inr srv'"
    and sm: "server_model srv' = ?m'"
    and gf: "get_all_params_of ?m' True = Some f"
    and gc: "get_all_params_of (cld_mdl srv') True =
             Some \<lparr> elems = map2 (+) (elems f)
                                (mean_vec (flat_len (server_model grads_server))
                                   (reported_grads grads_clients)),
                    attached = False \<rparr>"
    by (elim exE conjE)
  have f: "f = \<lparr> elems = [10, 20], attached = False \<rparr>"
    using gf by (simp add: get_all_params_of_def parameters_def flat_piece_def)
  have gs: "get_all_params_of (server_model srv') True = Some \<lparr> elems = [10, 20], attached = False \<rparr>"
    using gf unfolding sm f .
  have gc': "get_all_params_of (cld_mdl srv') True = Some \<lparr> elems = [12, 23], attached = False \<rparr>"
    using gc unfolding f rp by (simp add: grads_server_def fl mv)
  show ?thesis
    using wf tr rp mv r gs gc' by blast
qed

lemma param_rebuild:
  fixes pt pm :: param
  assumes "shape (val pt) = shape (val pm)" and "requires_grad pt = requires_grad pm"
  shows "pt\<lparr>val := \<lparr> shape = shape (val pt), data = data (val pm) \<rparr>\<rparr> = pm"
  using assms by (cases pt; cases pm; cases "val pm") simp

lemma unflatten_other:
  fixes ps_t ps_m :: "(string \<times> param) list"
  shows "map (\<lambda>(k, p). (k, shape (val p), requires_grad p)) ps_t =
         map (\<lambda>(k, p). (k, shape (val p), requires_grad p)) ps_m \<Longrightarrow>
   \<forall>(k, p) \<in> set ps_t. wf_tensor (val p) \<Longrightarrow> \<forall>(k, p) \<in> set ps_m. wf_tensor (val p) \<Longrightarrow>
   filter (\<lambda>(k, p). requires_grad p)
     (unflatten (concat (map (\<lambda>p. data (val p)) (filter requires_grad (map snd ps_m))) @ post) ps_t)
     = filter (\<lambda>(k, p). requires_grad p) ps_m \<and>
   filter (\<lambda>(k, p). \<not> requires_grad p)
     (unflatten (concat (map (\<lambda>p. data (val p)) (filter requires_grad (map snd ps_m))) @ post) ps_t)
     = filter (\<lambda>(k, p). \<not> requires_grad p) ps_t"
proof (induction ps_t arbitrary: ps_m)
  case Nil
  then show ?case by simp
next
  case (Cons a ps_t)
  obtain b qs where pm: "ps_m = b # qs"
    using Cons.prems(1) by (cases ps_m) auto
  obtain k pt where a: "a = (k, pt)" by (cases a)
  obtain k' q where b: "b = (k', q)" by (cases b)
  have kk: "k' = k" and sh: "shape (val pt) = shape (val q)"
    and rg: "requires_grad pt = requires_grad q"
    and tl: "map (\<lambda>(k, p). (k, shape (val p), requires_grad p)) ps_t =
             map (\<lambda>(k, p). (k, shape (val p), requires_grad p)) qs"
    using Cons.prems(1) unfolding pm a b by simp_all
  have wt: "\<forall>(k, p) \<in> set ps_t. wf_tensor (val p)" and wm: "\<forall>(k, p) \<in> set qs. wf_tensor (val p)"
    using Cons.prems(2,3) unfolding pm by simp_all
  have len: "length (data (val pt)) = length (data (val q))"
    using Cons.prems(2,3) sh unfolding pm a b by (simp add: wf_tensor_def numel_def)
  note IH = Cons.IH[OF tl wt wm]
  show ?case
  proof (cases "requires_grad pt")
    case True
    then have rq: "requires_grad q" using rg by simp
    have rb: "pt\<lparr>val := \<lparr> shape = shape (val pt), data = data (val q) \<rparr>\<rparr> = q"
      by (rule param_rebuild[OF sh rg])
    show ?thesis
      unfolding pm a b kk using True rq IH by (simp add: len rb)
  next
    case False
    then have rq: "\<not> requires_grad q" using rg by simp
    show ?thesis
      unfolding pm a b kk using False rq IH by simp
  qed
qed


lemma filter_snd_requires_grad:
  "filter requires_grad (map snd ps) = map snd (filter (\<lambda>(k, p). requires_grad p) ps)"
  by (induction ps) auto

lemma trainable_filter:
  "trainable x = map snd (filter (\<lambda>(k, p). requires_grad p) (named_parameters x))"
  unfolding trainable_def parameters_def by (rule filter_snd_requires_grad)

text \<open>
  Claim C7. Let \<open>m\<close> be a well-formed model (distinct names, every tensor holding as many
  elements as its shape says) and \<open>t\<close> any well-formed model of the same architecture,
  whatever values it holds. Loading the vector that \<open>get_all_params_of\<close> returns for
  \<open>m\<close> into \<open>t\<close> with \<open>load_all_params\<close> succeeds and gives a model whose trainable
  parameters are those of \<open>m\<close>, names, shapes and values, whose other parameters and
  buffers are those of \<open>t\<close>, and which flattens to the same vector; loaded into \<open>m\<close>
  itself it gives \<open>m\<close>. The vector, when there is one, has as many elements as the
  trainable parameters together.
\<close>

theorem flatten_roundtrip:
  assumes "wf_module m" and "wf_module t" and "arch t = arch m"
  shows "\<exists>t'. load_all_params t (map_option elems (get_all_params_of m copy)) = Inr t' \<and>
           filter (\<lambda>(k, p). requires_grad p) (named_parameters t') =
             filter (\<lambda>(k, p). requires_grad p) (named_parameters m) \<and>
           filter (\<lambda>(k, p). \<not> requires_grad p) (named_parameters t') =
             filter (\<lambda>(k, p). \<not> requires_grad p) (named_parameters t) \<and>
           named_buffers t' = named_buffers t \<and>
           get_all_params_of t' copy = get_all_params_of m copy \<and>
           (t = m \<longrightarrow> t' = m) \<and>
           (\<forall>f. get_all_params_of m copy = Some f \<longrightarrow>
                length (elems f) = sum_list (map (\<lambda>p. numel (val p)) (trainable m)))"
proof -
  let ?v = "concat (map (\<lambda>p. data (val p)) (trainable m))"
  have len: "\<forall>f. get_all_params_of m copy = Some f \<longrightarrow>
                length (elems f) = sum_list (map (\<lambda>p. numel (val p)) (trainable m))"
    using load_all_params_self[OF assms(1)] by blast
  have self: "load_all_params m (map_option elems (get_all_params_of m copy)) = Inr m"
    using load_all_params_self[OF assms(1)] by blast
  have ex: "\<exists>t'. load_all_params t (map_option elems (get_all_params_of m copy)) = Inr t' \<and>
           filter (\<lambda>(k, p). requires_grad p) (named_parameters t') =
             filter (\<lambda>(k, p). requires_grad p) (named_parameters m) \<and>
           filter (\<lambda>(k, p). \<not> requires_grad p) (named_parameters t') =
             filter (\<lambda>(k, p). \<not> requires_grad p) (named_parameters t) \<and>
           named_buffers t' = named_buffers t"
  proof (cases "trainable m = []")
    case True
    have tt: "trainable t = []"
      using arch_same(2)[OF assms(3)] True by simp
    have fm: "filter (\<lambda>(k, p). requires_grad p) (named_parameters m) = []"
      using True unfolding trainable_filter by simp
    have ft: "filter (\<lambda>(k, p). requires_grad p) (named_parameters t) = []"
      using tt unfolding trainable_filter by simp
    have none: "get_all_params_of m copy = None"
      using True by (simp add: get_all_params_of_eq)
    have "load_all_params_loop None 0 (named_parameters t) (named_parameters t) =
            Inr (named_parameters t)"
      using tt by (simp add: load_all_params_loop_frozen trainable_def parameters_def)
    then have "load_all_params t None = Inr t"
      unfolding load_all_params_def using load_state_dict_self[OF assms(2)] by simp
    then show ?thesis
      unfolding none using fm ft by simp
  next
    case False
    have gm: "get_all_params_of m copy = Some \<lparr> elems = ?v, attached = (\<not> copy) \<rparr>"
      using False by (simp add: get_all_params_of_eq)
    have vl: "length ?v = flat_len m"
      using length_flat[OF wf_module_trainable[OF assms(1)]] by (simp add: flat_len_def)
    have le: "flat_len t \<le> length ?v"
      using arch_same(1)[OF assms(3)] vl by simp
    define t' where "t' = t\<lparr>named_parameters := unflatten ?v (named_parameters t)\<rparr>"
    have ld: "load_all_params t (Some ?v) = Inr t'"
      unfolding t'_def by (rule load_all_params_unflatten[OF assms(2) le])
    have ar: "map (\<lambda>(k, p). (k, shape (val p), requires_grad p)) (named_parameters t) =
              map (\<lambda>(k, p). (k, shape (val p), requires_grad p)) (named_parameters m)"
      using assms(3) by (simp add: arch_def)
    have uo: "filter (\<lambda>(k, p). requires_grad p) (unflatten (?v @ []) (named_parameters t))
                = filter (\<lambda>(k, p). requires_grad p) (named_parameters m) \<and>
              filter (\<lambda>(k, p). \<not> requires_grad p) (unflatten (?v @ []) (named_parameters t))
                = filter (\<lambda>(k, p). \<not> requires_grad p) (named_parameters t)"
      unfolding trainable_def parameters_def
      by (rule unflatten_other[OF ar wf_module_params(2)[OF assms(2)] wf_module_params(2)[OF assms(1)]])
    have "filter (\<lambda>(k, p). requires_grad p) (named_parameters t') =
             filter (\<lambda>(k, p). requires_grad p) (named_parameters m)"
      and "filter (\<lambda>(k, p). \<not> requires_grad p) (named_parameters t') =
             filter (\<lambda>(k, p). \<not> requires_grad p) (named_parameters t)"
      and "named_buffers t' = named_buffers t"
      using uo unfolding t'_def by simp_all
    then show ?thesis
      unfolding gm using ld by simp
  qed
  then obtain t' where
    l: "load_all_params t (map_option elems (get_all_params_of m copy)) = Inr t'"
    and f1: "filter (\<lambda>(k, p). requires_grad p) (named_parameters t') =
             filter (\<lambda>(k, p). requires_grad p) (named_parameters m)"
    and f2: "filter (\<lambda>(k, p). \<not> requires_grad p) (named_parameters t') =
             filter (\<lambda>(k, p). \<not> requires_grad p) (named_parameters t)"
    and b: "named_buffers t' = named_buffers t"
    by blast
  have "trainable t' = trainable m"
    unfolding trainable_filter f1 ..
  then have g: "get_all_params_of t' copy = get_all_params_of m copy"
    by (simp add: get_all_params_of_eq)
  have s: "t = m \<longrightarrow> t' = m"
    using l self by auto
  show ?thesis
    using l f1 f2 b g s len by blast
qed

theorem flatten_roundtrip_witness:
  "wf_module small_module \<and> wf_module zero_module \<and> arch zero_module = arch small_module \<and>
   get_all_params_of small_module True = Some \<lparr> elems = [2, 3], attached = False \<rparr> \<and>
   load_all_params zero_module (map_option elems (get_all_params_of small_module True))
     = Inr small_module \<and>
   wf_module example_module \<and>
   load_all_params example_module (map_option elems (get_all_params_of example_module True))
     = Inr example_module \<and>
   get_all_params_of example_module True = Some \<lparr> elems = [1, 2, 3, 4, 5, 6], attached = False \<rparr> \<and>
   length [1, 2, 3, 4, 5, 6 :: real] = sum_list (map (\<lambda>p. numel (val p)) (trainable example_module))"
proof -
  have w1: "wf_module small_module"
    by (simp add: wf_module_def small_module_def state_dict_of_def wf_tensor_def numel_def)
  have w2: "wf_module zero_module"
    by (simp add: wf_module_def zero_module_def state_dict_of_def wf_tensor_def numel_def)
  have ar: "arch zero_module = arch small_module"
    by (simp add: arch_def zero_module_def small_module_def)
  have g1: "get_all_params_of small_module True = Some \<lparr> elems = [2, 3], attached = False \<rparr>"
    by (simp add: get_all_params_of_def small_module_def parameters_def flat_piece_def)
  from flatten_roundtrip[OF w1 w2 ar, of True]
  obtain t' where
    l: "load_all_params zero_module (map_option elems (get_all_params_of small_module True)) = Inr t'"
    and f1: "filter (\<lambda>(k, p). requires_grad p) (named_parameters t') =
             filter (\<lambda>(k, p). requires_grad p) (named_parameters small_module)"
    and f2: "filter (\<lambda>(k, p). \<not> requires_grad p) (named_parameters t') =
             filter (\<lambda>(k, p). \<not> requires_grad p) (named_parameters zero_module)"
    and b: "named_buffers t' = named_buffers zero_module"
    by (elim exE conjE)
  have np: "named_parameters t' =
              filter (\<lambda>(k, p). requires_grad p) (named_parameters t')"
  proof -
    have "\<forall>x \<in> set (named_parameters t'). case x of (k, p) \<Rightarrow> requires_grad p"
      using f2 by (auto simp: zero_module_def filter_empty_conv)
    then show ?thesis
      by (simp add: filter_id_conv)
  qed
  have "t' = small_module"
    using np f1 b by (cases t') (simp add: small_module_def zero_module_def)
  then have l1: "load_all_params zero_module (map_option elems (get_all_params_of small_module True))
     = Inr small_module"
    using l by simp
  have w3: "wf_module example_module"
    by (simp add: wf_module_def example_module_def state_dict_of_def wf_tensor_def numel_def)
  have g3: "get_all_params_of example_module True = Some \<lparr> elems = [1, 2, 3, 4, 5, 6], attached = False \<rparr>"
    by (simp add: get_all_params_of_def example_module_def parameters_def flat_piece_def cat_def)
  from flatten_roundtrip[OF w3 w3 refl, of True]
  have l3: "load_all_params example_module (map_option elems (get_all_params_of example_module True))
     = Inr example_module"
    and n3: "length [1, 2, 3, 4, 5, 6 :: real] =
               sum_list (map (\<lambda>p. numel (val p)) (trainable example_module))"
    unfolding g3 by auto
  show ?thesis
    by (intro conjI w1 w2 ar g1 l1 w3 l3 g3 n3)
qed

lemma training_epoch_refines:
  assumes "keeps_arch tr" and "trainable m1 \<noteq> []"
    and "length sp = flat_len m1" and "length pg = flat_len m1"
  shows "wf_module m \<Longrightarrow> arch m = arch m1 \<Longrightarrow>
         \<exists>ps opt' m'.
           training_passes_epoch tr a sp pg (opt, m) bs = (ps, (opt', m')) \<and>
           fit_batches tr a sp (Some pg) (opt, m, rl) bs =
             Inr (opt', m', rl + sum_list (map pass_loss ps)) \<and>
           wf_module m' \<and> arch m' = arch m1 \<and> map pass_batch ps = bs \<and>
           (\<forall>p \<in> set ps.
              get_all_params_of (pass_model p) False =
                Some \<lparr> elems = concat (map (\<lambda>q. data (val q)) (trainable (pass_model p))),
                       attached = True \<rparr> \<and>
              length (concat (map (\<lambda>q. data (val q)) (trainable (pass_model p)))) = length sp \<and>
              pass_loss p = task_loss tr (pass_model p) (pass_batch p) +
                a * sum_list (map2 (*) (concat (map (\<lambda>q. data (val q)) (trainable (pass_model p))))
                                (map2 (-) pg sp)))"
proof (induction bs arbitrary: opt m rl)
  case Nil
  then show ?case by simp
next
  case (Cons b bs)
  let ?cur = "\<lparr> elems = concat (map (\<lambda>p. data (val p)) (trainable m)), attached = True \<rparr>"
  let ?pen = "\<lparr> coef = a, curr_params = ?cur, factor = map2 (-) pg sp \<rparr>"
  let ?loss = "task_loss tr m b + a * sum_list (map2 (*) (elems ?cur) (map2 (-) pg sp))"
  have tr: "trainable m \<noteq> []"
    using arch_same(2)[OF Cons.prems(2)] assms(2) by simp
  have cur: "get_all_params_of m False = Some ?cur"
    using tr by (simp add: get_all_params_of_eq)
  have len: "length (elems ?cur) = length sp"
    using get_all_params_of_arch[OF Cons.prems(1) tr, of False] cur
      arch_same(1)[OF Cons.prems(2)] assms(3) by simp
  obtain opt1 m2 where st: "backward_step tr opt m b ?pen = (opt1, m2)"
    by (cases "backward_step tr opt m b ?pen")
  have k: "wf_module m2" "arch m2 = arch m1"
    using assms(1) Cons.prems st unfolding keeps_arch_def by (metis snd_conv)+
  have fac: "map2 (+) (vec_neg sp) pg = map2 (-) pg sp"
    unfolding vec_neg_def by (rule map2_neg_add)
  have ln: "length (vec_neg sp) = length sp"
    by (simp add: vec_neg_def)
  have mb: "fit_minibatch tr a sp (Some pg) (opt, m, rl) b = Inr (opt1, m2, rl + ?loss)"
    using len assms(3,4) st
    by (simp add: fit_minibatch_def cur vec_zip_def fac Let_def ln)
  from Cons.IH[OF k, of opt1 "rl + ?loss"]
  obtain ps opt' m' where
    r1: "training_passes_epoch tr a sp pg (opt1, m2) bs = (ps, (opt', m'))"
    and r2: "fit_batches tr a sp (Some pg) (opt1, m2, rl + ?loss) bs =
             Inr (opt', m', rl + ?loss + sum_list (map pass_loss ps))"
    and r3: "wf_module m'" "arch m' = arch m1" "map pass_batch ps = bs"
    and r4: "\<forall>p \<in> set ps.
              get_all_params_of (pass_model p) False =
                Some \<lparr> elems = concat (map (\<lambda>q. data (val q)) (trainable (pass_model p))),
                       attached = True \<rparr> \<and>
              length (concat (map (\<lambda>q. data (val q)) (trainable (pass_model p)))) = length sp \<and>
              pass_loss p = task_loss tr (pass_model p) (pass_batch p) +
                a * sum_list (map2 (*) (concat (map (\<lambda>q. data (val q)) (trainable (pass_model p))))
                                (map2 (-) pg sp))"
    by blast
  let ?p = "\<lparr> pass_model = m, pass_batch = b, pass_loss = ?loss \<rparr>"
  have e1: "training_passes_epoch tr a sp pg (opt, m) (b # bs) = (?p # ps, (opt', m'))"
    by (simp add: Let_def st r1)
  have e2: "fit_batches tr a sp (Some pg) (opt, m, rl) (b # bs) =
             Inr (opt', m', rl + sum_list (map pass_loss (?p # ps)))"
  proof -
    have "fit_batches tr a sp (Some pg) (opt, m, rl) (b # bs) =
            fit_batches tr a sp (Some pg) (opt1, m2, rl + ?loss) bs"
      unfolding fit_batches.simps mb bindE.simps ..
    also have "\<dots> = Inr (opt', m', rl + ?loss + sum_list (map pass_loss ps))"
      by (rule r2)
    also have "rl + ?loss + sum_list (map pass_loss ps) = rl + sum_list (map pass_loss (?p # ps))"
      by simp
    finally show ?thesis .
  qed
  have e4: "\<forall>p \<in> set (?p # ps).
              get_all_params_of (pass_model p) False =
                Some \<lparr> elems = concat (map (\<lambda>q. data (val q)) (trainable (pass_model p))),
                       attached = True \<rparr> \<and>
              length (concat (map (\<lambda>q. data (val q)) (trainable (pass_model p)))) = length sp \<and>
              pass_loss p = task_loss tr (pass_model p) (pass_batch p) +
                a * sum_list (map2 (*) (concat (map (\<lambda>q. data (val q)) (trainable (pass_model p))))
                                (map2 (-) pg sp))"
    using r4 cur len by simp
  have e3: "map pass_batch (?p # ps) = b # bs"
    using r3(3) by simp
  show ?case
    by (intro exI[of _ "?p # ps"] exI[of _ opt'] exI[of _ m'] conjI e1 e2 r3(1,2) e3 e4)
qed


lemma training_epoch_penalised:
  assumes "keeps_arch tr" and "trainable m1 \<noteq> []"
    and "length sp = flat_len m1" and "length pg = flat_len m1"
    and "wf_module m" and "arch m = arch m1"
  shows "\<exists>ps opt' m'.
           training_passes_epoch tr a sp pg (opt, m) bs = (ps, (opt', m')) \<and>
           fit_batches tr a sp (Some pg) (opt, m, rl) bs =
             Inr (opt', m', rl + sum_list (map pass_loss ps)) \<and>
           wf_module m' \<and> arch m' = arch m1 \<and> map pass_batch ps = bs \<and>
           list_all (penalised_pass tr a sp pg) ps"
proof -
  from training_epoch_refines[OF assms, of a opt bs rl]
  obtain ps opt' m' where
    r1: "training_passes_epoch tr a sp pg (opt, m) bs = (ps, (opt', m'))"
    and r2: "fit_batches tr a sp (Some pg) (opt, m, rl) bs =
             Inr (opt', m', rl + sum_list (map pass_loss ps))"
    and r3: "wf_module m'" "arch m' = arch m1" "map pass_batch ps = bs"
    and r4: "\<forall>p \<in> set ps.
              get_all_params_of (pass_model p) False =
                Some \<lparr> elems = concat (map (\<lambda>q. data (val q)) (trainable (pass_model p))),
                       attached = True \<rparr> \<and>
              length (concat (map (\<lambda>q. data (val q)) (trainable (pass_model p)))) = length sp \<and>
              pass_loss p = task_loss tr (pass_model p) (pass_batch p) +
                a * sum_list (map2 (*) (concat (map (\<lambda>q. data (val q)) (trainable (pass_model p))))
                                (map2 (-) pg sp))"
    by (elim exE conjE)
  have "penalised_pass tr a sp pg p" if "p \<in> set ps" for p
    unfolding penalised_pass_def
    by (rule exI[of _ "\<lparr> elems = concat (map (\<lambda>q. data (val q)) (trainable (pass_model p))),
                          attached = True \<rparr>"])
       (use r4 that in simp)
  then have r5: "list_all (penalised_pass tr a sp pg) ps"
    by (simp add: list_all_iff)
  show ?thesis
    by (intro exI[of _ ps] exI[of _ opt'] exI[of _ m'] conjI r1 r2 r3 r5)
qed

lemma training_refines:
  assumes "keeps_arch tr" and "trainable m1 \<noteq> []"
    and "length sp = flat_len m1" and "length pg = flat_len m1"
  shows "wf_module m \<Longrightarrow> arch m = arch m1 \<Longrightarrow>
         \<exists>ps opt' m'.
           training_passes tr a sp pg n bs (opt, m) = (ps, (opt', m')) \<and>
           fit_epochs tr a sp (Some pg) n bs (opt, m, rl) =
             Inr (opt', m', rl + sum_list (map pass_loss ps)) \<and>
           wf_module m' \<and> arch m' = arch m1 \<and>
           map pass_batch ps = concat (replicate n bs) \<and>
           list_all (penalised_pass tr a sp pg) ps"
proof (induction n arbitrary: opt m rl)
  case 0
  then show ?case by simp
next
  case (Suc n)
  from training_epoch_penalised[OF assms Suc.prems, of a opt bs rl]
  obtain ps opt1 m2 where
    r1: "training_passes_epoch tr a sp pg (opt, m) bs = (ps, (opt1, m2))"
    and r2: "fit_batches tr a sp (Some pg) (opt, m, rl) bs =
             Inr (opt1, m2, rl + sum_list (map pass_loss ps))"
    and r3: "wf_module m2" "arch m2 = arch m1"
    and r4: "map pass_batch ps = bs"
    and r5: "list_all (penalised_pass tr a sp pg) ps"
    by (elim exE conjE)
  from Suc.IH[OF r3, of "scheduler_step tr opt1" "rl + sum_list (map pass_loss ps)"]
  obtain ps' opt' m' where
    q1: "training_passes tr a sp pg n bs (scheduler_step tr opt1, m2) = (ps', (opt', m'))"
    and q2: "fit_epochs tr a sp (Some pg) n bs
               (scheduler_step tr opt1, m2, rl + sum_list (map pass_loss ps)) =
             Inr (opt', m', rl + sum_list (map pass_loss ps) + sum_list (map pass_loss ps'))"
    and q3: "wf_module m'" "arch m' = arch m1"
    and q4: "map pass_batch ps' = concat (replicate n bs)"
    and q5: "list_all (penalised_pass tr a sp pg) ps'"
    by (elim exE conjE)
  have e1: "training_passes tr a sp pg (Suc n) bs (opt, m) = (ps @ ps', (opt', m'))"
    by (simp add: r1 q1)
  have e2: "fit_epochs tr a sp (Some pg) (Suc n) bs (opt, m, rl) =
             Inr (opt', m', rl + sum_list (map pass_loss (ps @ ps')))"
  proof -
    have "fit_epochs tr a sp (Some pg) (Suc n) bs (opt, m, rl) =
            fit_epochs tr a sp (Some pg) n bs
               (scheduler_step tr opt1, m2, rl + sum_list (map pass_loss ps))"
      unfolding fit_epochs.simps r2 bindE.simps by simp
    also have "\<dots> = Inr (opt', m', rl + sum_list (map pass_loss ps) + sum_list (map pass_loss ps'))"
      by (rule q2)
    also have "rl + sum_list (map pass_loss ps) + sum_list (map pass_loss ps') =
               rl + sum_list (map pass_loss (ps @ ps'))"
      by simp
    finally show ?thesis .
  qed
  have e4: "map pass_batch (ps @ ps') = concat (replicate (Suc n) bs)"
    using r4 q4 by simp
  have e5: "list_all (penalised_pass tr a sp pg) (ps @ ps')"
    using r5 q5 by simp
  show ?case
    by (intro exI[of _ "ps @ ps'"] exI[of _ opt'] exI[of _ m'] conjI e1 e2 q3 e4 e5)
qed


text \<open>
  Claim C3. For a client as in claim C2, \<open>fit\<close> returns, and its loop is the training
  the spec words: with the coefficient \<open>alpha / weight\<close> and the snapshot
  \<open>server_params\<close>, it makes one pass for every minibatch of every epoch, in order; each
  pass flattens the current parameters of its model without detaching and adds
  \<open>(alpha / weight) * sum (curr_params * (prev_grads - server_params))\<close> to the task loss
  before the backward step, which receives that penalty term; the loss \<open>fit\<close> returns is
  the mean of the losses of all passes, and the model it leaves is the model after the
  last pass.
\<close>

theorem fit_penalty_every_minibatch:
  assumes "keeps_arch tr"
    and "model c = Some m0" and "wf_module m0"
    and "parameters m0 \<noteq> []" and "\<forall>p \<in> set (parameters m0). requires_grad p"
    and "weight c = Some w" and "w \<noteq> 0"
    and "prev_grads c = Some pg" and "length pg = flat_len m0"
    and "(if override > 0 then override else local_epochs c) * int (length (batches (train_set c))) \<noteq> 0"
  shows "\<exists>c' loss server_params ps opt' m'.
           fit tr c override = Inr (c', loss) \<and>
           get_all_params_of m0 True = Some server_params \<and>
           training_passes tr (alpha c / w) (elems server_params) pg
             (nat (if override > 0 then override else local_epochs c)) (batches (train_set c))
             (case optimizer c of
                None \<Rightarrow> make_optimizer tr m0 (alpha c / w + weight_decay c)
              | Some opt0 \<Rightarrow> opt0, m0) = (ps, (opt', m')) \<and>
           map pass_batch ps =
             concat (replicate (nat (if override > 0 then override else local_epochs c))
                       (batches (train_set c))) \<and>
           list_all (penalised_pass tr (alpha c / w) (elems server_params) pg) ps \<and>
           loss = sum_list (map pass_loss ps) /
                    real_of_int ((if override > 0 then override else local_epochs c) *
                                 int (length (batches (train_set c)))) \<and>
           model c' = Some m' \<and> optimizer c' = Some opt'"
proof -
  let ?epochs = "if override > 0 then override else local_epochs c"
  let ?a = "alpha c / w"
  have tr0: "trainable m0 \<noteq> []"
    using assms(4,5) by (cases "parameters m0") (auto simp: trainable_def)
  obtain sp where sp: "get_all_params_of m0 True = Some sp"
    and spl: "length (elems sp) = flat_len m0"
    using get_all_params_of_arch[OF assms(3) tr0, of True] by auto
  have m1: "set_requires_grad m0 = m0"
    by (rule set_requires_grad_id[OF assms(5)])
  define opt where "opt = (case optimizer c of
                             None \<Rightarrow> make_optimizer tr m0 (?a + weight_decay c)
                           | Some opt0 \<Rightarrow> opt0)"
  from training_refines[OF assms(1) tr0 spl assms(9) assms(3) refl,
      of ?a "nat ?epochs" "batches (train_set c)" opt 0]
  obtain ps opt' m' where
    tp: "training_passes tr ?a (elems sp) pg (nat ?epochs) (batches (train_set c)) (opt, m0)
           = (ps, (opt', m'))"
    and ep: "fit_epochs tr ?a (elems sp) (Some pg) (nat ?epochs) (batches (train_set c)) (opt, m0, 0)
           = Inr (opt', m', 0 + sum_list (map pass_loss ps))"
    and w': "wf_module m'" and ar: "arch m' = arch m0"
    and pb: "map pass_batch ps = concat (replicate (nat ?epochs) (batches (train_set c)))"
    and pp: "list_all (penalised_pass tr ?a (elems sp) pg) ps"
    by (elim exE conjE)
  have tr': "trainable m' \<noteq> []"
    using arch_same(2)[OF ar] tr0 by simp
  obtain cur where cur: "get_all_params_of m' True = Some cur"
    and curl: "length (elems cur) = flat_len m0"
    using get_all_params_of_arch[OF w' tr', of True] arch_same(1)[OF ar] by auto
  define pg' where "pg' = map2 (+) pg (map (\<lambda>d. ?a * d) (map2 (-) (elems sp) (elems cur)))"
  define c' where "c' = c\<lparr>model := Some m', prev_grads := Some pg', optimizer := Some opt'\<rparr>"
  define loss where "loss = sum_list (map pass_loss ps) /
                       real_of_int (?epochs * int (length (batches (train_set c))))"
  have fin: "fit_finish c ?epochs ?a sp (opt', m', 0 + sum_list (map pass_loss ps)) = Inr (c', loss)"
    using cur spl curl assms(8,9,10)
    by (simp add: fit_finish_def vec_zip_def vec_scale_def pg'_def c'_def loss_def)
  have ft: "fit tr c override = Inr (c', loss)"
    using assms(2,6,7,8) sp ep fin
    by (simp add: fit_def Let_def m1 opt_def)
  have mc: "model c' = Some m'" and oc: "optimizer c' = Some opt'"
    by (simp_all add: c'_def)
  show ?thesis
    by (intro exI[of _ c'] exI[of _ loss] exI[of _ sp] exI[of _ ps] exI[of _ opt'] exI[of _ m']
        conjI ft sp tp[unfolded opt_def] pb pp mc oc) (simp add: loss_def)
qed


theorem fit_penalty_every_minibatch_witness:
  "keeps_arch example_trainer \<and> wf_module small_module \<and>
   get_all_params_of small_module True = Some \<lparr> elems = [2, 3], attached = False \<rparr> \<and>
   training_passes example_trainer (1 / 5) [2, 3] [1, 1] 2 [()] ((), small_module) =
     ([\<lparr> pass_model = small_module, pass_batch = (), pass_loss = - (8 / 5) \<rparr>,
       \<lparr> pass_model = ones_module, pass_batch = (), pass_loss = - (3 / 5) \<rparr>],
      ((), ones_module)) \<and>
   (\<exists>c'. fit example_trainer
           ((example_client 0 10)\<lparr>model := Some small_module, weight := Some (1 / 2),
                                   prev_grads := Some [1, 1]\<rparr>) 2 = Inr (c', - (11 / 10)) \<and>
         model c' = Some ones_module) \<and>
   penalised_pass example_trainer (1 / 5) [2, 3] [1, 1]
     \<lparr> pass_model = ones_module, pass_batch = (), pass_loss = - (3 / 5) \<rparr>"
proof -
  let ?c = "(example_client 0 10)\<lparr>model := Some small_module, weight := Some (1 / 2),
                                  prev_grads := Some [1, 1]\<rparr>"
  let ?ps = "[\<lparr> pass_model = small_module, pass_batch = (), pass_loss = - (8 / 5) \<rparr>,
              \<lparr> pass_model = ones_module, pass_batch = (), pass_loss = - (3 / 5) \<rparr>]"
  have h2: "model ?c = Some small_module" and h6: "weight ?c = Some (1 / 2)"
    and h8: "prev_grads ?c = Some [1, 1]" and al: "alpha ?c / (1 / 2) = 1 / 5"
    and op: "optimizer ?c = None" and ba: "batches (train_set ?c) = [()]"
    by (simp_all add: example_client_def)
  have h3: "wf_module small_module"
    by (simp add: wf_module_def small_module_def state_dict_of_def wf_tensor_def numel_def)
  have h4: "parameters small_module \<noteq> []"
    and h5: "\<forall>p \<in> set (parameters small_module). requires_grad p"
    and h9: "length [1, 1 :: real] = flat_len small_module"
    by (simp_all add: parameters_def small_module_def flat_len_def trainable_def numel_def)
  have h7: "(1 / 2 :: real) \<noteq> 0" by simp
  have h10: "(if (2 :: int) > 0 then 2 else local_epochs ?c) * int (length (batches (train_set ?c))) \<noteq> 0"
    by (simp add: example_client_def)
  have g: "get_all_params_of small_module True = Some \<lparr> elems = [2, 3], attached = False \<rparr>"
    by (simp add: get_all_params_of_def small_module_def parameters_def flat_piece_def)
  have bs1: "backward_step example_trainer opt small_module b pen = ((), ones_module)" for opt b pen
    by (simp add: example_trainer_def small_module_def ones_module_def)
  have bs2: "backward_step example_trainer opt ones_module b pen = ((), ones_module)" for opt b pen
    by (simp add: example_trainer_def ones_module_def)
  have t1: "concat (map (\<lambda>p. data (val p)) (trainable small_module)) = [2, 3]"
    and t2: "concat (map (\<lambda>p. data (val p)) (trainable ones_module)) = [1, 1]"
    by (simp_all add: trainable_def parameters_def small_module_def ones_module_def)
  have tl: "task_loss example_trainer m b = 0" for m b
    by (simp add: example_trainer_def)
  have tp: "training_passes example_trainer (1 / 5) [2, 3] [1, 1] 2 [()] ((), small_module) =
              (?ps, ((), ones_module))"
    by (simp add: numeral_2_eq_2 Let_def bs1 bs2 t1 t2 tl)
  from fit_penalty_every_minibatch[OF keeps_arch_example h2 h3 h4 h5 h6 h7 h8 h9 h10]
  obtain c' loss server_params ps opt' m' where
    f: "fit example_trainer ?c 2 = Inr (c', loss)"
    and s: "get_all_params_of small_module True = Some server_params"
    and p: "training_passes example_trainer (alpha ?c / (1 / 2)) (elems server_params) [1, 1]
             (nat (if (2 :: int) > 0 then 2 else local_epochs ?c)) (batches (train_set ?c))
             (case optimizer ?c of
                None \<Rightarrow> make_optimizer example_trainer small_module
                          (alpha ?c / (1 / 2) + weight_decay ?c)
              | Some opt0 \<Rightarrow> opt0, small_module) = (ps, (opt', m'))"
    and pp: "list_all (penalised_pass example_trainer (alpha ?c / (1 / 2)) (elems server_params)
                         [1, 1]) ps"
    and l: "loss = sum_list (map pass_loss ps) /
                    real_of_int ((if (2 :: int) > 0 then 2 else local_epochs ?c) *
                                 int (length (batches (train_set ?c))))"
    and m: "model c' = Some m'"
    by (elim exE conjE)
  have sp: "server_params = \<lparr> elems = [2, 3], attached = False \<rparr>"
    using s g by simp
  have p': "training_passes example_trainer (1 / 5) [2, 3] [1, 1] 2 [()] ((), small_module) =
              (ps, (opt', m'))"
    using p unfolding al sp op ba by simp
  have ps: "ps = ?ps" and m': "m' = ones_module"
    using p' tp by simp_all
  have lo: "loss = - (11 / 10)"
    unfolding l ps ba by simp
  have fit': "\<exists>c'. fit example_trainer ?c 2 = Inr (c', - (11 / 10)) \<and> model c' = Some ones_module"
    using f m unfolding lo m' by blast
  have pen: "penalised_pass example_trainer (1 / 5) [2, 3] [1, 1]
     \<lparr> pass_model = ones_module, pass_batch = (), pass_loss = - (3 / 5) \<rparr>"
    using pp unfolding al sp ps by simp
  show ?thesis
    by (intro conjI keeps_arch_example h3 g tp fit' pen)
qed

lemma bindE_InrE:
  assumes "bindE x f = Inr y"
  obtains a where "x = Inr a" and "f a = Inr y"
  using assms by (cases x) simp_all

lemma bindE_eq_Inr: "bindE x f = Inr y \<longleftrightarrow> (\<exists>a. x = Inr a \<and> f a = Inr y)"
  by (cases x) simp_all

lemma quiet_extension_iff:
  "quiet_extension ch ch' \<longleftrightarrow>
     (\<exists>evs. history ch' = history ch @ evs \<and> list_all (\<lambda>e. \<not> is_weight_event e) evs)"
  unfolding quiet_extension_def prefix_def by auto

lemma quiet_refl: "quiet_extension ch ch"
  unfolding quiet_extension_def by simp

lemma quiet_trans:
  assumes "quiet_extension a b" and "quiet_extension b c"
  shows "quiet_extension a c"
proof -
  obtain e1 where e1: "history b = history a @ e1" "list_all (\<lambda>e. \<not> is_weight_event e) e1"
    using assms(1) unfolding quiet_extension_iff by (elim exE conjE)
  obtain e2 where e2: "history c = history b @ e2" "list_all (\<lambda>e. \<not> is_weight_event e) e2"
    using assms(2) unfolding quiet_extension_iff by (elim exE conjE)
  have "history c = history a @ (e1 @ e2)"
    by (simp add: e1(1) e2(1))
  moreover have "list_all (\<lambda>e. \<not> is_weight_event e) (e1 @ e2)"
    by (simp add: e1(2) e2(2))
  ultimately show ?thesis
    unfolding quiet_extension_iff by (intro exI[of _ "e1 @ e2"] conjI)
qed

lemma quiet_send:
  assumes "msg_type msg \<noteq> ''weight''"
  shows "quiet_extension ch (send ch msg r)"
  unfolding quiet_extension_iff
  by (intro exI[of _ "[Sent (sender msg) r (msg_type msg)]"] conjI)
     (simp_all add: send_def is_weight_event_def assms)

lemma quiet_receive:
  assumes "receive ch r s t = Inr (m, ch')" and "t \<noteq> ''weight''"
  shows "quiet_extension ch ch'"
proof -
  have "history ch' = history ch @ [Received s r t]"
    using assms(1) unfolding receive_def by (auto split: option.splits)
  then show ?thesis
    unfolding quiet_extension_iff
    by (intro exI[of _ "[Received s r t]"] conjI) (simp_all add: is_weight_event_def assms(2))
qed

lemma quiet_broadcast:
  assumes "msg_type msg \<noteq> ''weight''"
  shows "quiet_extension ch (broadcast ch msg is)"
proof (induction "is" arbitrary: ch)
  case Nil
  show ?case by (simp add: quiet_refl)
next
  case (Cons i "is")
  show ?case
    using quiet_trans[OF quiet_send[OF assms, of ch "Client i"] Cons.IH[of "send ch msg (Client i)"]]
    by simp
qed

lemma quiet_receive_model:
  assumes "receive_model sl ch c = Inr (ch', c')"
  shows "quiet_extension ch ch' \<and> weight c' = weight c \<and> index c' = index c"
proof -
  obtain msg ch1 where r: "receive ch (Client (index c)) Server ''model'' = Inr (msg, ch1)"
    and rest: "(case payload msg of
         Models mdl cld \<Rightarrow>
           (case model c of
              None \<Rightarrow>
                (case get_all_params_of mdl True of
                   None \<Rightarrow> Inl TypeError
                 | Some f \<Rightarrow> Inr (ch1, c\<lparr>model := Some mdl, prev_grads := Some (zeros_like f)\<rparr>))
            | Some m \<Rightarrow>
                bindE (sl m (state_dict_of cld))
                  (\<lambda>m'. Inr (ch1, c\<lparr>model := Some m'\<rparr>)))
       | _ \<Rightarrow> Inl TypeError) = Inr (ch', c')"
    using assms unfolding receive_model_def bindE_eq_Inr by auto
  have q: "quiet_extension ch ch1"
    by (rule quiet_receive[OF r]) simp
  have "ch' = ch1 \<and> weight c' = weight c \<and> index c' = index c"
    using rest by (auto split: payload.splits option.splits simp: bindE_eq_Inr)
  then show ?thesis
    using q by simp
qed

lemma fit_finish_weight:
  assumes "fit_finish c epochs a sp st = Inr (c', loss)"
  shows "weight c' = weight c \<and> index c' = index c"
  using assms unfolding fit_finish_def
  by (auto split: prod.splits option.splits if_splits simp: bindE_eq_Inr)

lemma fit_weight:
  assumes "fit tr c ov = Inr (c', loss)"
  shows "weight c' = weight c \<and> index c' = index c"
  using assms unfolding fit_def Let_def
  by (auto split: option.splits if_splits simp: bindE_eq_Inr dest: fit_finish_weight)

lemma quiet_send_model: "quiet_extension ch (send_model ch c)"
  unfolding send_model_def
  by (rule quiet_trans[OF quiet_send quiet_send]) simp_all

lemma quiet_local_update:
  assumes "local_update co ch c = Inr (ch', c')"
  shows "quiet_extension ch ch' \<and> weight c' = weight c \<and> index c' = index c"
proof -
  obtain ch1 c1 c2 loss where a: "receive_model (safe_load_state_dict co) ch c = Inr (ch1, c1)"
    and b: "fit (the_trainer co) c1 0 = Inr (c2, loss)"
    and c: "ch' = send_model ch1 c2" "c' = c2"
    using assms unfolding local_update_def by (auto elim!: bindE_InrE)
  show ?thesis
    using quiet_receive_model[OF a] fit_weight[OF b] quiet_send_model[of ch1 c2] c
    by (auto intro: quiet_trans)
qed

lemma quiet_local_updates:
  assumes "local_updates co sel ch cs = Inr (ch', cs')"
  shows "quiet_extension ch ch' \<and> map weight cs' = map weight cs \<and> map index cs' = map index cs"
  using assms
proof (induction cs arbitrary: ch ch' cs')
  case Nil
  then show ?case by (simp add: quiet_refl)
next
  case (Cons c cs)
  show ?case
  proof (cases "sel (index c)")
    case True
    obtain ch1 c1 cs1 where a: "local_update co ch c = Inr (ch1, c1)"
      and b: "local_updates co sel ch1 cs = Inr (ch', cs1)" and c: "cs' = c1 # cs1"
      using Cons.prems True by (auto simp: bindE_eq_Inr)
    show ?thesis
      using quiet_local_update[OF a] Cons.IH[OF b] c by (auto intro: quiet_trans)
  next
    case False
    obtain cs1 where b: "local_updates co sel ch cs = Inr (ch', cs1)" and c: "cs' = c # cs1"
      using Cons.prems False by (auto simp: bindE_eq_Inr)
    show ?thesis
      using Cons.IH[OF b] c by auto
  qed
qed

lemma quiet_receive_client_models:
  assumes "receive_client_models ch cs = Inr (ms, ch')"
  shows "quiet_extension ch ch'"
  using assms
proof (induction cs arbitrary: ch ms)
  case Nil
  then show ?case by (simp add: quiet_refl)
next
  case (Cons c cs)
  obtain msg ch1 where r: "receive ch Server (Client (index c)) ''model'' = Inr (msg, ch1)"
    and rest: "(case payload msg of
         ClientModel (Some m) \<Rightarrow>
           bindE (receive_client_models ch1 cs) (\<lambda>(ms, ch''). Inr (m # ms, ch''))
       | ClientModel None \<Rightarrow> Inl AttributeError
       | _ \<Rightarrow> Inl TypeError) = Inr (ms, ch')"
    using Cons.prems by (auto simp: bindE_eq_Inr)
  obtain ms1 where "receive_client_models ch1 cs = Inr (ms1, ch')"
    using rest by (auto split: payload.splits option.splits simp: bindE_eq_Inr)
  from Cons.IH[OF this] quiet_receive[OF r] show ?case
    by (auto intro: quiet_trans)
qed

lemma quiet_receive_grads:
  assumes "receive_grads ch cs ag n = Inr (ag', n', ch')"
  shows "quiet_extension ch ch'"
  using assms
proof (induction cs arbitrary: ch ag n)
  case Nil
  then show ?case by (simp add: quiet_refl)
next
  case (Cons c cs)
  obtain msg ch1 where r: "receive ch Server (Client (index c)) ''grads'' = Inr (msg, ch1)"
    and rest: "(case payload msg of
         Grads None \<Rightarrow> receive_grads ch1 cs ag n
       | Grads (Some pg) \<Rightarrow>
           (case ag of
              None \<Rightarrow> receive_grads ch1 cs (Some pg) (n + 1)
            | Some a \<Rightarrow>
                bindE (vec_zip (+) a pg) (\<lambda>a'. receive_grads ch1 cs (Some a') (n + 1)))
       | _ \<Rightarrow> Inl AttributeError) = Inr (ag', n', ch')"
    using Cons.prems by (auto simp: bindE_eq_Inr)
  have "\<exists>ag1 n1. receive_grads ch1 cs ag1 n1 = Inr (ag', n', ch')"
    using rest by (auto split: payload.splits option.splits simp: bindE_eq_Inr)
  then obtain ag1 n1 where "receive_grads ch1 cs ag1 n1 = Inr (ag', n', ch')"
    by (elim exE)
  from Cons.IH[OF this] quiet_receive[OF r] show ?case
    by (auto intro: quiet_trans)
qed

lemma quiet_aggregate:
  assumes "FedDynServer_aggregate gw am srv el cms = Inr srv'"
  shows "quiet_extension (chan srv) (chan srv') \<and> clients srv' = clients srv"
  using assms unfolding FedDynServer_aggregate_def Let_def
  apply (auto elim!: bindE_InrE split: option.splits)
  apply (erule quiet_receive_grads)
  done

lemma quiet_round:
  assumes "feddyn_round co r srv = Inr srv'"
  shows "quiet_extension (chan srv) (chan srv') \<and>
         map weight (clients srv') = map weight (clients srv) \<and>
         map index (clients srv') = map index (clients srv)"
proof -
  define srv1 where "srv1 = broadcast_model srv (filter (\<lambda>c. eligible_in co r (index c)) (clients srv))"
  obtain ch2 cs2 cms ch3 where a: "local_updates co (eligible_in co r) (chan srv1) (clients srv1) = Inr (ch2, cs2)"
    and b: "receive_client_models ch2 (filter (\<lambda>c. eligible_in co r (index c)) cs2) = Inr (cms, ch3)"
    and c: "FedDynServer_aggregate (client_weights co) (agg_models co)
             (srv1\<lparr>chan := ch3, clients := cs2\<rparr>)
             (filter (\<lambda>c. eligible_in co r (index c)) cs2) cms = Inr srv'"
    using assms unfolding feddyn_round_def Let_def srv1_def[symmetric]
    by (auto elim!: bindE_InrE)
  have q1: "quiet_extension (chan srv) (chan srv1)" and c1: "clients srv1 = clients srv"
    unfolding srv1_def broadcast_model_def by (simp_all add: quiet_broadcast)
  from quiet_aggregate[OF c] have q4: "quiet_extension ch3 (chan srv')" and c4: "clients srv' = cs2"
    by simp_all
  show ?thesis
    using q1 c1 quiet_local_updates[OF a] quiet_receive_client_models[OF b] q4 c4
    by (auto intro: quiet_trans)
qed

lemma quiet_rounds:
  assumes "feddyn_rounds co r k srv = Inr srv'"
  shows "quiet_extension (chan srv) (chan srv') \<and>
         map weight (clients srv') = map weight (clients srv) \<and>
         map index (clients srv') = map index (clients srv)"
  using assms
proof (induction k arbitrary: r srv)
  case 0
  then show ?case by (simp add: quiet_refl)
next
  case (Suc k)
  obtain s1 where a: "feddyn_round co r srv = Inr s1" and b: "feddyn_rounds co (Suc r) k s1 = Inr srv'"
    using Suc.prems by (auto simp: bindE_eq_Inr)
  show ?case
    using quiet_round[OF a] Suc.IH[OF b] by (auto intro: quiet_trans)
qed

lemma feddyn_rounds_snoc:
  "feddyn_rounds co r (Suc k) srv = bindE (feddyn_rounds co r k srv) (feddyn_round co (r + k))"
proof (induction k arbitrary: r srv)
  case 0
  show ?case by (cases "feddyn_round co r srv") simp_all
next
  case (Suc k)
  show ?case
  proof (cases "feddyn_round co r srv")
    case (Inl e)
    then show ?thesis by simp
  next
    case (Inr s1)
    have "feddyn_rounds co r (Suc (Suc k)) srv = feddyn_rounds co (Suc r) (Suc k) s1"
      using Inr by simp
    also have "\<dots> = bindE (feddyn_rounds co (Suc r) k s1) (feddyn_round co (Suc r + k))"
      by (rule Suc.IH)
    also have "\<dots> = bindE (feddyn_rounds co r (Suc k) srv) (feddyn_round co (r + Suc k))"
      using Inr by simp
    finally show ?thesis .
  qed
qed



lemma feddyn_rounds_earlier:
  assumes "feddyn_rounds co r n srv = Inr srv'" and "k < n"
  shows "\<exists>s s'. feddyn_rounds co r k srv = Inr s \<and> feddyn_round co (r + k) s = Inr s'"
  using assms
proof (induction n arbitrary: srv')
  case 0
  then show ?case by simp
next
  case (Suc n)
  have "bindE (feddyn_rounds co r n srv) (feddyn_round co (r + n)) = Inr srv'"
    using Suc.prems(1) by (simp only: feddyn_rounds_snoc)
  then obtain sn where a: "feddyn_rounds co r n srv = Inr sn"
    and b: "feddyn_round co (r + n) sn = Inr srv'"
    by (rule bindE_InrE)
  show ?case
  proof (cases "k = n")
    case True
    show ?thesis
      unfolding True by (intro exI[of _ sn] exI[of _ srv'] conjI a b)
  next
    case False
    then have "k < n"
      using Suc.prems(2) by simp
    then show ?thesis
      by (rule Suc.IH[OF a])
  qed
qed

text \<open>
  Claim C9, as the code has it: \<^verbatim>\<open>FedDynServer.fit\<close> runs the weight exchange once, before
  the first round, and not in every round: under the conditions in which the exchange
  returns, every weight message is sent and received and every client holds its normalised
  weight before the round loop of the base class starts; a call that returns has run every
  round; and every round, after any number of rounds, starts with the clients holding
  those same weights, with the weight messages standing before every other message, and
  itself exchanges no weight message.
\<close>

theorem weight_exchange_once_before_rounds:
  assumes "weight_free (chan srv)" and "sum_list (counts (clients srv)) \<noteq> 0"
  shows "\<exists>srv1. weight_exchange srv = Inr srv1 \<and>
           FedDynServer_fit (Server_fit co) srv n_rounds eligible_perc =
             feddyn_rounds co 1 (nat n_rounds) srv1 \<and>
           history (chan srv1) = history (chan srv) @ weight_events (clients srv) \<and>
           list_all is_weight_event (weight_events (clients srv)) \<and>
           pending (chan srv1) = pending (chan srv) \<and>
           map weight (clients srv1) =
             map (\<lambda>c. Some (real (n_examples (train_set c)) /
                             real (sum_list (counts (clients srv))) * real (n_clients srv)))
               (clients srv) \<and>
           (\<forall>srv' k. FedDynServer_fit (Server_fit co) srv n_rounds eligible_perc = Inr srv' \<and>
                      k < nat n_rounds \<longrightarrow>
              (\<exists>s s'. feddyn_rounds co 1 k srv1 = Inr s \<and> feddyn_round co (Suc k) s = Inr s')) \<and>
           (\<forall>k s s'. feddyn_rounds co 1 k srv1 = Inr s \<and> feddyn_round co (Suc k) s = Inr s' \<longrightarrow>
              feddyn_rounds co 1 (Suc k) srv1 = Inr s' \<and>
              map weight (clients s) = map weight (clients srv1) \<and>
              map weight (clients s') = map weight (clients srv1) \<and>
              (\<exists>before. history (chan s) =
                           history (chan srv) @ weight_events (clients srv) @ before \<and>
                         list_all (\<lambda>e. \<not> is_weight_event e) before) \<and>
              (\<exists>evs. history (chan s') = history (chan s) @ evs \<and>
                      list_all (\<lambda>e. \<not> is_weight_event e) evs))"
proof -
  define srv1 where "srv1 = srv\<lparr>chan := \<lparr> pending = pending (chan srv),
                         history = history (chan srv) @ weight_events (clients srv) \<rparr>,
              clients := map (\<lambda>c. c\<lparr>weight := Some (real (n_examples (train_set c)) /
                    real (sum_list (counts (clients srv))) * real (length (clients srv)))\<rparr>)
                  (clients srv)\<rparr>"
  have ex: "weight_exchange srv = Inr srv1"
    unfolding srv1_def by (rule weight_exchange_eq[OF assms(1,2)])
  have ft: "FedDynServer_fit (Server_fit co) srv n_rounds eligible_perc =
             feddyn_rounds co 1 (nat n_rounds) srv1"
    unfolding FedDynServer_fit_def ex Server_fit_def by simp
  have hi: "history (chan srv1) = history (chan srv) @ weight_events (clients srv)"
    unfolding srv1_def by simp
  have pe: "pending (chan srv1) = pending (chan srv)"
    unfolding srv1_def by simp
  have ev: "list_all is_weight_event (weight_events cs)" for cs :: "('a, 'b) client list"
    unfolding weight_events_def list_all_append
    by (induction cs) (simp_all add: is_weight_event_def)
  have w: "map weight (clients srv1) =
             map (\<lambda>c. Some (real (n_examples (train_set c)) /
                             real (sum_list (counts (clients srv))) * real (n_clients srv)))
               (clients srv)"
    unfolding srv1_def n_clients_def by (simp add: comp_def)
  have every: "\<forall>srv' k. FedDynServer_fit (Server_fit co) srv n_rounds eligible_perc = Inr srv' \<and>
                      k < nat n_rounds \<longrightarrow>
              (\<exists>s s'. feddyn_rounds co 1 k srv1 = Inr s \<and> feddyn_round co (Suc k) s = Inr s')"
  proof (intro allI impI)
    fix srv' k
    assume a: "FedDynServer_fit (Server_fit co) srv n_rounds eligible_perc = Inr srv' \<and>
               k < nat n_rounds"
    then have "feddyn_rounds co 1 (nat n_rounds) srv1 = Inr srv'"
      by (simp only: ft)
    from feddyn_rounds_earlier[OF this, of k] a
    show "\<exists>s s'. feddyn_rounds co 1 k srv1 = Inr s \<and> feddyn_round co (Suc k) s = Inr s'"
      by simp
  qed
  have rounds: "\<forall>k s s'. feddyn_rounds co 1 k srv1 = Inr s \<and> feddyn_round co (Suc k) s = Inr s' \<longrightarrow>
              feddyn_rounds co 1 (Suc k) srv1 = Inr s' \<and>
              map weight (clients s) = map weight (clients srv1) \<and>
              map weight (clients s') = map weight (clients srv1) \<and>
              (\<exists>before. history (chan s) =
                           history (chan srv) @ weight_events (clients srv) @ before \<and>
                         list_all (\<lambda>e. \<not> is_weight_event e) before) \<and>
              (\<exists>evs. history (chan s') = history (chan s) @ evs \<and>
                      list_all (\<lambda>e. \<not> is_weight_event e) evs)"
  proof (intro allI impI)
    fix k s s'
    assume a: "feddyn_rounds co 1 k srv1 = Inr s \<and> feddyn_round co (Suc k) s = Inr s'"
    then have a1: "feddyn_rounds co 1 k srv1 = Inr s" and a2: "feddyn_round co (Suc k) s = Inr s'"
      by simp_all
    have c1: "feddyn_rounds co 1 (Suc k) srv1 = Inr s'"
      by (simp only: feddyn_rounds_snoc a1 bindE.simps a2 plus_1_eq_Suc)
    from quiet_rounds[OF a1] have q1: "quiet_extension (chan srv1) (chan s)"
      and c2: "map weight (clients s) = map weight (clients srv1)"
      by simp_all
    from quiet_round[OF a2] have q2: "quiet_extension (chan s) (chan s')"
      and w2: "map weight (clients s') = map weight (clients s)"
      by simp_all
    have c3: "map weight (clients s') = map weight (clients srv1)"
      by (simp only: w2 c2)
    have c4: "\<exists>before. history (chan s) =
                           history (chan srv) @ weight_events (clients srv) @ before \<and>
                         list_all (\<lambda>e. \<not> is_weight_event e) before"
      using q1 unfolding quiet_extension_iff hi by simp
    have c5: "\<exists>evs. history (chan s') = history (chan s) @ evs \<and>
                      list_all (\<lambda>e. \<not> is_weight_event e) evs"
      using q2 unfolding quiet_extension_iff .
    show "feddyn_rounds co 1 (Suc k) srv1 = Inr s' \<and>
              map weight (clients s) = map weight (clients srv1) \<and>
              map weight (clients s') = map weight (clients srv1) \<and>
              (\<exists>before. history (chan s) =
                           history (chan srv) @ weight_events (clients srv) @ before \<and>
                         list_all (\<lambda>e. \<not> is_weight_event e) before) \<and>
              (\<exists>evs. history (chan s') = history (chan s) @ evs \<and>
                      list_all (\<lambda>e. \<not> is_weight_event e) evs)"
      by (intro conjI c1 c2 c3 c4 c5)
  qed
  show ?thesis
    by (intro exI[of _ srv1] conjI ex ft hi ev pe w every rounds)
qed

theorem weight_exchange_once_before_rounds_witness:
  "weight_free (chan solo_server) \<and> sum_list (counts (clients solo_server)) = 10 \<and>
   (\<exists>srv1 s s'. weight_exchange solo_server = Inr srv1 \<and>
      map weight (clients srv1) = [Some 1] \<and>
      FedDynServer_fit (Server_fit solo_collaborators) solo_server 2 1 = Inr s' \<and>
      feddyn_rounds solo_collaborators 1 1 srv1 = Inr s \<and>
      feddyn_round solo_collaborators 2 s = Inr s' \<and>
      map weight (clients s) = [Some 1] \<and>
      map weight (clients s') = [Some 1] \<and>
      list_all (\<lambda>e. \<not> is_weight_event e) (drop (length (history (chan s))) (history (chan s'))))"
proof -
  let ?S0 = "solo_server\<lparr>chan := \<lparr> pending = [], history = weight_events (clients solo_server) \<rparr>,
                         clients := [(example_client 0 10)\<lparr>weight := Some 1\<rparr>]\<rparr>"
  let ?S1 = "\<lparr> chan = \<lparr> pending = [],
                         history = weight_events (clients solo_server) @ solo_round_events \<rparr>,
               clients = [(example_client 0 10)\<lparr>model := Some ones_module, weight := Some 1,
                            prev_grads := Some [1 / 10, 1 / 5], optimizer := Some ()\<rparr>],
               server_model = ones_module,
               cld_mdl = \<lparr> named_parameters =
                             [(''w'', \<lparr> val = \<lparr> shape = [2], data = [11 / 10, 6 / 5] \<rparr>,
                                       requires_grad = True \<rparr>)],
                           named_buffers = [] \<rparr>,
               lr = 1, weighted = True \<rparr> :: (unit, unit) feddyn_server"
  let ?S2 = "\<lparr> chan = \<lparr> pending = [],
                         history = weight_events (clients solo_server) @ solo_round_events @
                                   solo_round_events \<rparr>,
               clients = [(example_client 0 10)\<lparr>model := Some ones_module, weight := Some 1,
                            prev_grads := Some [11 / 100, 11 / 50], optimizer := Some ()\<rparr>],
               server_model = ones_module,
               cld_mdl = \<lparr> named_parameters =
                             [(''w'', \<lparr> val = \<lparr> shape = [2], data = [111 / 100, 61 / 50] \<rparr>,
                                       requires_grad = True \<rparr>)],
                           named_buffers = [] \<rparr>,
               lr = 1, weighted = True \<rparr> :: (unit, unit) feddyn_server"
  have h1: "weight_free (chan solo_server)"
    by (simp add: solo_server_def weight_free_def empty_channel_def)
  have h2: "sum_list (counts (clients solo_server)) = 10"
    by (simp add: solo_server_def counts_def example_client_def)
  have h2': "sum_list (counts (clients solo_server)) \<noteq> 0"
    using h2 by simp
  have a: "weight_exchange solo_server = Inr ?S0"
    by code_simp
  have b: "feddyn_rounds solo_collaborators 1 1 ?S0 = Inr ?S1"
    by code_simp
  have c: "feddyn_round solo_collaborators 2 ?S1 = Inr ?S2"
    by code_simp
  have d: "FedDynServer_fit (Server_fit solo_collaborators) solo_server 2 1 = Inr ?S2"
    by code_simp
  from weight_exchange_once_before_rounds[OF h1 h2', where co = solo_collaborators
      and n_rounds = 2 and eligible_perc = 1]
  obtain srv1 where x: "weight_exchange solo_server = Inr srv1"
    and r: "\<forall>k s s'. feddyn_rounds solo_collaborators 1 k srv1 = Inr s \<and>
                      feddyn_round solo_collaborators (Suc k) s = Inr s' \<longrightarrow>
              feddyn_rounds solo_collaborators 1 (Suc k) srv1 = Inr s' \<and>
              map weight (clients s) = map weight (clients srv1) \<and>
              map weight (clients s') = map weight (clients srv1) \<and>
              (\<exists>before. history (chan s) =
                           history (chan solo_server) @ weight_events (clients solo_server) @ before \<and>
                         list_all (\<lambda>e. \<not> is_weight_event e) before) \<and>
              (\<exists>evs. history (chan s') = history (chan s) @ evs \<and>
                      list_all (\<lambda>e. \<not> is_weight_event e) evs)"
    by (elim exE conjE)
  have s1: "srv1 = ?S0"
    using a x by simp
  have w0: "map weight (clients srv1) = [Some 1]"
    unfolding s1 by simp
  have b': "feddyn_rounds solo_collaborators 1 1 srv1 = Inr ?S1"
    unfolding s1 by (rule b)
  have c': "feddyn_round solo_collaborators (Suc 1) ?S1 = Inr ?S2"
    using c by (simp only: Suc_1)
  note R = r[rule_format, OF conjI[OF b' c']]
  have w1: "map weight (clients ?S1) = map weight (clients srv1)"
    by (rule R[THEN conjunct2, THEN conjunct1])
  have w2: "map weight (clients ?S2) = map weight (clients srv1)"
    by (rule R[THEN conjunct2, THEN conjunct2, THEN conjunct1])
  have e: "\<exists>evs. history (chan ?S2) = history (chan ?S1) @ evs \<and>
                      list_all (\<lambda>e. \<not> is_weight_event e) evs"
    by (rule R[THEN conjunct2, THEN conjunct2, THEN conjunct2, THEN conjunct2])
  from e obtain evs where e1: "history (chan ?S2) = history (chan ?S1) @ evs"
    and e2: "list_all (\<lambda>e. \<not> is_weight_event e) evs"
    by (elim exE conjE)
  have dr: "drop (length (history (chan ?S1))) (history (chan ?S2)) = evs"
    unfolding e1 by simp
  have l: "list_all (\<lambda>e. \<not> is_weight_event e) (drop (length (history (chan ?S1))) (history (chan ?S2)))"
    unfolding dr by (rule e2)
  have ev: "\<exists>srv1 s s'. weight_exchange solo_server = Inr srv1 \<and>
      map weight (clients srv1) = [Some 1] \<and>
      FedDynServer_fit (Server_fit solo_collaborators) solo_server 2 1 = Inr s' \<and>
      feddyn_rounds solo_collaborators 1 1 srv1 = Inr s \<and>
      feddyn_round solo_collaborators 2 s = Inr s' \<and>
      map weight (clients s) = [Some 1] \<and>
      map weight (clients s') = [Some 1] \<and>
      list_all (\<lambda>e. \<not> is_weight_event e) (drop (length (history (chan s))) (history (chan s')))"
    by (intro exI[of _ srv1] exI[of _ ?S1] exI[of _ ?S2] conjI x w0 d b' c
          w1[unfolded w0] w2[unfolded w0] l)
  show ?thesis
    by (intro conjI h1 h2 ev)
qed

text \<open>
  The exchange is not repeated in every round. In a call of \<^verbatim>\<open>FedDynServer.fit\<close> for
  two rounds with one client, the weight messages are exchanged once, before the first
  round; the second round starts with the broadcast of the models and exchanges the same
  six messages as the first, none of them of type \<^verbatim>\<open>"weight"\<close>.
\<close>

theorem weight_exchange_every_round_counterexample:
  "weight_exchange solo_server = Inr solo_exchanged \<and>
   feddyn_round solo_collaborators 1 solo_exchanged = Inr solo_round1 \<and>
   feddyn_round solo_collaborators 2 solo_round1 = Inr solo_round2 \<and>
   FedDynServer_fit (Server_fit solo_collaborators) solo_server 2 1 = Inr solo_round2 \<and>
   history (chan solo_exchanged) = weight_events (clients solo_server) \<and>
   history (chan solo_round1) = history (chan solo_exchanged) @ solo_round_events \<and>
   history (chan solo_round2) = history (chan solo_round1) @ solo_round_events \<and>
   filter is_weight_event solo_round_events = []"
proof -
  have a: "weight_exchange solo_server = Inr solo_exchanged"
    by code_simp
  have b: "feddyn_round solo_collaborators 1 solo_exchanged = Inr solo_round1"
    by code_simp
  have c: "feddyn_round solo_collaborators 2 solo_round1 = Inr solo_round2"
    by code_simp
  have d: "FedDynServer_fit (Server_fit solo_collaborators) solo_server 2 1 = Inr solo_round2"
    by code_simp
  have e: "history (chan solo_exchanged) = weight_events (clients solo_server)"
    by (simp add: solo_exchanged_def)
  have f: "history (chan solo_round1) = history (chan solo_exchanged) @ solo_round_events"
    by (simp add: solo_round1_def solo_exchanged_def)
  have g: "history (chan solo_round2) = history (chan solo_round1) @ solo_round_events"
    by (simp add: solo_round2_def solo_round1_def)
  have h: "filter is_weight_event solo_round_events = []"
    by (simp add: solo_round_events_def is_weight_event_def)
  show ?thesis
    by (intro conjI a b c d e f g h)
qed

lemma mapE_Inr:
  "mapE f xs = Inr ys \<Longrightarrow> list_all2 (\<lambda>x y. f x = Inr y) xs ys"
proof (induction xs arbitrary: ys)
  case Nil
  then show ?case by simp
next
  case (Cons x xs)
  from Cons.prems obtain y ys' where fx: "f x = Inr y" and rest: "mapE f xs = Inr ys'"
    and ys: "ys = y # ys'"
    by (auto simp: bindE_eq_Inr)
  show ?case
    unfolding ys using fx Cons.IH[OF rest] by simp
qed




lemma mapE_keys:
  assumes "mapE f xs = Inr ys" and "\<And>k t y. f (k, t) = Inr y \<Longrightarrow> fst y = k"
  shows "map fst ys = map fst xs"
  using assms(1)
proof (induction xs arbitrary: ys)
  case Nil
  then show ?case by simp
next
  case (Cons x xs)
  from Cons.prems obtain y ys' where fx: "f x = Inr y" and rest: "mapE f xs = Inr ys'"
    and ys: "ys = y # ys'"
    by (auto simp: bindE_eq_Inr)
  have "fst y = fst x"
    using assms(2)[of "fst x" "snd x" y] fx by simp
  then show ?case
    unfolding ys using Cons.IH[OF rest] by simp
qed










lemma apply_momentum_keys:
  "apply_momentum mv ps = Inr ps' \<Longrightarrow> map fst ps' = map fst ps"
proof (induction ps arbitrary: ps')
  case Nil
  then show ?case by simp
next
  case (Cons kp ps)
  obtain key p where kp: "kp = (key, p)"
    by (cases kp)
  from Cons.prems obtain rest' p' where r: "apply_momentum mv ps = Inr rest'"
    and ps': "ps' = (key, p') # rest'"
    unfolding kp by (auto split: option.splits elim!: bindE_InrE)
  show ?case
    unfolding ps' kp using Cons.IH[OF r] by simp
qed




lemma diff_model_key:
  assumes "diff_model ign msd csd = Inr d" and "distinct (map fst msd)"
    and "(key, t) \<in> set msd" and "\<not> endswith key ign"
  shows "\<exists>c. map_of csd key = Some c \<and> shape c = shape t \<and>
           map_of d key = Some \<lparr> shape = shape t, data = map2 (-) (data t) (data c) \<rparr>"
proof -
  define f where "f = (\<lambda>(key, t1). case map_of csd key of
                     None \<Rightarrow> Inl KeyError
                   | Some t2 \<Rightarrow> bindE (tensor_zip (-) t1 t2) (\<lambda>d. Inr (key, d)))"
  define xs where "xs = filter (\<lambda>(key, t1). \<not> endswith key ign) msd"
  have m: "mapE f xs = Inr d"
    using assms(1) unfolding diff_model_def f_def xs_def
    by (cases "set (map fst msd) \<noteq> set (map fst csd)") simp_all
  have fk: "\<And>k t y. f (k, t) = Inr y \<Longrightarrow> fst y = k"
    unfolding f_def by (auto split: option.splits elim!: bindE_InrE)
  have keys: "map fst d = map fst xs"
    by (rule mapE_keys[OF m fk])
  have l2: "list_all2 (\<lambda>x y. f x = Inr y) xs d"
    by (rule mapE_Inr[OF m])
  have "(key, t) \<in> set xs"
    unfolding xs_def using assms(3,4) by simp
  then obtain i where i: "i < length xs" and xi: "xs ! i = (key, t)"
    unfolding in_set_conv_nth by blast
  have fi: "f (key, t) = Inr (d ! i)"
    using list_all2_nthD[OF l2 i] unfolding xi .
  then obtain c dt where c: "map_of csd key = Some c" and z: "tensor_zip (-) t c = Inr dt"
    and di: "d ! i = (key, dt)"
    unfolding f_def by (auto split: option.splits elim!: bindE_InrE)
  have sh: "shape c = shape t" and dt: "dt = \<lparr> shape = shape t, data = map2 (-) (data t) (data c) \<rparr>"
    using z unfolding tensor_zip_def by (auto split: if_splits)
  have dx: "distinct (map fst xs)"
    unfolding xs_def by (rule distinct_map_filter[OF assms(2)])
  have dd: "distinct (map fst d)"
    unfolding keys by (rule dx)
  have la: "length d = length xs"
    using list_all2_lengthD[OF l2] by (rule sym)
  have "d ! i \<in> set d"
    using i unfolding la[symmetric] by (rule nth_mem)
  then have mo: "map_of d key = Some dt"
    unfolding di map_of_eq_Some_iff[OF dd] .
  show ?thesis
    by (intro exI[of _ c] conjI c sh mo[unfolded dt])
qed


lemma avg_clients_other:
  assumes "avg_clients key ws i dfs avg = Inr avg'" and "k \<noteq> key"
  shows "map_of avg' k = map_of avg k"
  using assms(1)
proof (induction dfs arbitrary: i avg)
  case Nil
  then show ?case by simp
next
  case (Cons d rest)
  from Cons.prems have "\<exists>a1. avg_clients key ws (i + 1) rest (AList.update key a1 avg) = Inr avg'"
    by (auto split: if_splits option.splits elim!: bindE_InrE)
  then obtain a1 where r: "avg_clients key ws (i + 1) rest (AList.update key a1 avg) = Inr avg'"
    by (elim exE)
  have "map_of avg' k = map_of (AList.update key a1 avg) k"
    by (rule Cons.IH[OF r])
  also have "\<dots> = map_of avg k"
    using assms(2) by (simp add: update_conv')
  finally show ?case .
qed

lemma avg_clients_key:
  assumes "avg_clients key ws i dfs avg = Inr avg'"
    and "list_all (\<lambda>d. case map_of d key of None \<Rightarrow> False
                        | Some dt \<Rightarrow> shape dt = s \<and> length (data dt) = n) dfs"
    and "case map_of avg key of None \<Rightarrow> True | Some a \<Rightarrow> shape a = s \<and> length (data a) = n"
    and "dfs \<noteq> []"
  shows "\<exists>a'. map_of avg' key = Some a' \<and> shape a' = s \<and> length (data a') = n \<and>
           (\<forall>e<n. data a' ! e =
                     (case map_of avg key of None \<Rightarrow> 0 | Some a \<Rightarrow> data a ! e) +
                     (\<Sum>(w, d)\<leftarrow>zip (drop i ws) dfs. w * data (the (map_of d key)) ! e))"
  using assms
proof (induction dfs arbitrary: i avg)
  case Nil
  then show ?case by simp
next
  case (Cons d rest)
  define acc where "acc = (\<lambda>e. case map_of avg key of None \<Rightarrow> 0 | Some a \<Rightarrow> data a ! e)"
  have il: "i < length ws"
    using Cons.prems(1) by (auto split: if_splits)
  obtain dt where dk: "map_of d key = Some dt" and ds: "shape dt = s" and dn: "length (data dt) = n"
    using Cons.prems(2) by (auto split: option.splits)
  have restok: "list_all (\<lambda>d. case map_of d key of None \<Rightarrow> False
                        | Some dt \<Rightarrow> shape dt = s \<and> length (data dt) = n) rest"
    using Cons.prems(2) by simp
  have "\<exists>a1. avg_clients key ws (i + 1) rest (AList.update key a1 avg) = Inr avg' \<and>
              shape a1 = s \<and> length (data a1) = n \<and>
              (\<forall>e<n. data a1 ! e = acc e + ws ! i * data dt ! e)"
  proof (cases "map_of avg key")
    case None
    have r: "avg_clients key ws (i + 1) rest
               (AList.update key (tensor_scale (ws ! i) dt) avg) = Inr avg'"
      using Cons.prems(1) il dk None by simp
    show ?thesis
      by (intro exI[of _ "tensor_scale (ws ! i) dt"] conjI r)
         (simp_all add: tensor_scale_def ds dn acc_def None)
  next
    case (Some a)
    have ash: "shape a = s" and an: "length (data a) = n"
      using Cons.prems(3) Some by simp_all
    define a1 where "a1 = \<lparr> shape = shape a,
                            data = map2 (+) (data a) (data (tensor_scale (ws ! i) dt)) \<rparr>"
    have z: "tensor_zip (+) a (tensor_scale (ws ! i) dt) = Inr a1"
      unfolding tensor_zip_def a1_def by (simp add: tensor_scale_def ash ds)
    have r: "avg_clients key ws (i + 1) rest (AList.update key a1 avg) = Inr avg'"
      using Cons.prems(1) il dk Some z by simp
    show ?thesis
      by (intro exI[of _ a1] conjI r)
         (simp_all add: a1_def tensor_scale_def ash an dn acc_def Some)
  qed
  then obtain a1 where r: "avg_clients key ws (i + 1) rest (AList.update key a1 avg) = Inr avg'"
    and s1: "shape a1 = s" and n1: "length (data a1) = n"
    and v1: "\<forall>e<n. data a1 ! e = acc e + ws ! i * data dt ! e"
    by (elim exE conjE)
  have m1: "map_of (AList.update key a1 avg) key = Some a1"
    by (simp add: update_conv')
  have dr: "drop i ws = ws ! i # drop (Suc i) ws"
    using il by (simp add: Cons_nth_drop_Suc)
  show ?case
  proof (cases "rest = []")
    case True
    have "avg' = AList.update key a1 avg"
      using r True by simp
    then have mo: "map_of avg' key = Some a1"
      using m1 by simp
    have v: "\<forall>e<n. data a1 ! e = acc e +
                     (\<Sum>(w, d)\<leftarrow>zip (drop i ws) (d # rest). w * data (the (map_of d key)) ! e)"
      using v1 unfolding dr True by (simp add: dk)
    show ?thesis
      by (intro exI[of _ a1] conjI mo s1 n1 v[unfolded acc_def])
  next
    case False
    have c3: "case map_of (AList.update key a1 avg) key of None \<Rightarrow> True
              | Some a \<Rightarrow> shape a = s \<and> length (data a) = n"
      unfolding m1 by (simp add: s1 n1)
    from Cons.IH[OF r restok c3 False]
    obtain a' where mo: "map_of avg' key = Some a'" and s2: "shape a' = s"
      and n2: "length (data a') = n"
      and v2: "\<forall>e<n. data a' ! e =
                 (case map_of (AList.update key a1 avg) key of None \<Rightarrow> 0 | Some a \<Rightarrow> data a ! e) +
                 (\<Sum>(w, d)\<leftarrow>zip (drop (i + 1) ws) rest. w * data (the (map_of d key)) ! e)"
      by (elim exE conjE)
    have v: "\<forall>e<n. data a' ! e = acc e +
                     (\<Sum>(w, d)\<leftarrow>zip (drop i ws) (d # rest). w * data (the (map_of d key)) ! e)"
    proof (intro allI impI)
      fix e
      assume e: "e < n"
      have "data a' ! e = data a1 ! e +
              (\<Sum>(w, d)\<leftarrow>zip (drop (Suc i) ws) rest. w * data (the (map_of d key)) ! e)"
        using v2 e unfolding m1 by simp
      also have "data a1 ! e = acc e + ws ! i * data dt ! e"
        using v1 e by simp
      finally show "data a' ! e = acc e +
                     (\<Sum>(w, d)\<leftarrow>zip (drop i ws) (d # rest). w * data (the (map_of d key)) ! e)"
        unfolding dr by (simp add: dk)
    qed
    show ?thesis
      by (intro exI[of _ a'] conjI mo s2 n2 v[unfolded acc_def])
  qed
qed


lemma avg_keys_other:
  assumes "avg_keys ign msd dfs ws ks avg = Inr avg'" and "key \<notin> set ks"
  shows "map_of avg' key = map_of avg key"
  using assms
proof (induction ks arbitrary: avg)
  case Nil
  then show ?case by simp
next
  case (Cons k ks)
  have kk: "k \<noteq> key" and nk: "key \<notin> set ks"
    using Cons.prems(2) by auto
  have "\<exists>avg1. avg_keys ign msd dfs ws ks avg1 = Inr avg' \<and> map_of avg1 key = map_of avg key"
  proof (cases "endswith k ign")
    case True
    then obtain t where r: "avg_keys ign msd dfs ws ks (AList.update k t avg) = Inr avg'"
      using Cons.prems(1) by (auto split: option.splits)
    have "map_of (AList.update k t avg) key = map_of avg key"
      using kk by (simp add: update_conv')
    then show ?thesis
      using r by (intro exI[of _ "AList.update k t avg"] conjI)
  next
    case False
    then obtain avg1 where a: "avg_clients k ws 0 dfs avg = Inr avg1"
      and r: "avg_keys ign msd dfs ws ks avg1 = Inr avg'"
      using Cons.prems(1) by (auto elim!: bindE_InrE)
    have "map_of avg1 key = map_of avg key"
      by (rule avg_clients_other[OF a kk[symmetric]])
    then show ?thesis
      using r by (intro exI[of _ avg1] conjI)
  qed
  then obtain avg1 where r: "avg_keys ign msd dfs ws ks avg1 = Inr avg'"
    and e: "map_of avg1 key = map_of avg key"
    by (elim exE conjE)
  show ?case
    using Cons.IH[OF r nk] e by simp
qed

lemma avg_keys_key:
  assumes "avg_keys ign msd dfs ws ks avg = Inr avg'" and "distinct ks" and "key \<in> set ks"
    and "\<not> endswith key ign" and "map_of avg key = None" and "dfs \<noteq> []"
    and "list_all (\<lambda>d. case map_of d key of None \<Rightarrow> False
                        | Some dt \<Rightarrow> shape dt = s \<and> length (data dt) = n) dfs"
  shows "\<exists>a'. map_of avg' key = Some a' \<and> shape a' = s \<and> length (data a') = n \<and>
           (\<forall>e<n. data a' ! e =
                     (\<Sum>(w, d)\<leftarrow>zip ws dfs. w * data (the (map_of d key)) ! e))"
  using assms(1,2,3,5)
proof (induction ks arbitrary: avg)
  case Nil
  then show ?case by simp
next
  case (Cons k ks)
  show ?case
  proof (cases "k = key")
    case True
    have nk: "key \<notin> set ks"
      using Cons.prems(2) True by simp
    obtain avg1 where a: "avg_clients key ws 0 dfs avg = Inr avg1"
      and r: "avg_keys ign msd dfs ws ks avg1 = Inr avg'"
      using Cons.prems(1) assms(4) unfolding True by (auto elim!: bindE_InrE)
    have c3: "case map_of avg key of None \<Rightarrow> True | Some a \<Rightarrow> shape a = s \<and> length (data a) = n"
      using Cons.prems(4) by simp
    from avg_clients_key[OF a assms(7) c3 assms(6)]
    obtain a' where mo: "map_of avg1 key = Some a'" and s1: "shape a' = s"
      and n1: "length (data a') = n"
      and v: "\<forall>e<n. data a' ! e =
                     (case map_of avg key of None \<Rightarrow> 0 | Some a \<Rightarrow> data a ! e) +
                     (\<Sum>(w, d)\<leftarrow>zip (drop 0 ws) dfs. w * data (the (map_of d key)) ! e)"
      by (elim exE conjE)
    have v': "\<forall>e<n. data a' ! e = (\<Sum>(w, d)\<leftarrow>zip ws dfs. w * data (the (map_of d key)) ! e)"
      using v unfolding Cons.prems(4) by simp
    have mo': "map_of avg' key = Some a'"
      using avg_keys_other[OF r nk] mo by simp
    show ?thesis
      by (intro exI[of _ a'] conjI mo' s1 n1 v')
  next
    case False
    have ik: "key \<in> set ks"
      using Cons.prems(3) False by simp
    have dk: "distinct ks"
      using Cons.prems(2) by simp
    have "\<exists>avg1. avg_keys ign msd dfs ws ks avg1 = Inr avg' \<and> map_of avg1 key = None"
    proof (cases "endswith k ign")
      case True
      then obtain t where r: "avg_keys ign msd dfs ws ks (AList.update k t avg) = Inr avg'"
        using Cons.prems(1) by (auto split: option.splits)
      have "map_of (AList.update k t avg) key = None"
        using False Cons.prems(4) by (simp add: update_conv')
      then show ?thesis
        using r by (intro exI[of _ "AList.update k t avg"] conjI)
    next
      case nign: False
      then obtain avg1 where a: "avg_clients k ws 0 dfs avg = Inr avg1"
        and r: "avg_keys ign msd dfs ws ks avg1 = Inr avg'"
        using Cons.prems(1) by (auto elim!: bindE_InrE)
      have "map_of avg1 key = None"
        using avg_clients_other[OF a, of key] False Cons.prems(4) by simp
      then show ?thesis
        using r by (intro exI[of _ avg1] conjI)
    qed
    then obtain avg1 where r: "avg_keys ign msd dfs ws ks avg1 = Inr avg'"
      and e: "map_of avg1 key = None"
      by (elim exE conjE)
    show ?thesis
      by (rule Cons.IH[OF r dk ik e])
  qed
qed

lemma update_momentum_other:
  assumes "update_momentum mu avg ks mv = Inr mv'" and "key \<notin> set ks"
  shows "map_of mv' key = map_of mv key"
  using assms
proof (induction ks arbitrary: mv)
  case Nil
  then show ?case by simp
next
  case (Cons k ks)
  have kk: "k \<noteq> key" and nk: "key \<notin> set ks"
    using Cons.prems(2) by auto
  obtain t where r: "update_momentum mu avg ks (AList.update k t mv) = Inr mv'"
    using Cons.prems(1) by (auto split: option.splits elim!: bindE_InrE)
  have "map_of (AList.update k t mv) key = map_of mv key"
    using kk by (simp add: update_conv')
  then show ?case
    using Cons.IH[OF r nk] by simp
qed

lemma update_momentum_key:
  assumes "update_momentum mu avg ks mv = Inr mv'" and "distinct ks" and "key \<in> set ks"
  shows "\<exists>m a t'. map_of mv key = Some m \<and> map_of avg key = Some a \<and>
           tensor_zip (+) (tensor_scale mu m) a = Inr t' \<and> map_of mv' key = Some t'"
  using assms
proof (induction ks arbitrary: mv)
  case Nil
  then show ?case by simp
next
  case (Cons k ks)
  obtain m a t where m: "map_of mv k = Some m" and a: "map_of avg k = Some a"
    and z: "tensor_zip (+) (tensor_scale mu m) a = Inr t"
    and r: "update_momentum mu avg ks (AList.update k t mv) = Inr mv'"
    using Cons.prems(1) by (auto split: option.splits elim!: bindE_InrE)
  show ?case
  proof (cases "k = key")
    case True
    have nk: "key \<notin> set ks"
      using Cons.prems(2) True by simp
    have "map_of mv' key = map_of (AList.update k t mv) key"
      by (rule update_momentum_other[OF r nk])
    then have mo: "map_of mv' key = Some t"
      unfolding True by (simp add: update_conv')
    show ?thesis
      by (intro exI[of _ m] exI[of _ a] exI[of _ t] conjI m[unfolded True] a[unfolded True] z mo)
  next
    case False
    have ik: "key \<in> set ks" and dk: "distinct ks"
      using Cons.prems(2,3) False by simp_all
    have e: "map_of (AList.update k t mv) key = map_of mv key"
      using False by (simp add: update_conv')
    show ?thesis
      using Cons.IH[OF r dk ik] unfolding e .
  qed
qed

lemma apply_momentum_rel:
  assumes "apply_momentum mv ps = Inr ps'"
  shows "list_all2 (\<lambda>kp kp'. fst kp' = fst kp \<and>
                      requires_grad (snd kp') = requires_grad (snd kp) \<and>
                      (\<exists>m. map_of mv (fst kp) = Some m \<and>
                           tensor_zip (-) (val (snd kp)) m = Inr (val (snd kp')))) ps ps'"
  using assms
proof (induction ps arbitrary: ps')
  case Nil
  then show ?case by simp
next
  case (Cons kp ps)
  obtain key p where kp: "kp = (key, p)"
    by (cases kp)
  from Cons.prems obtain m t rest' where m: "map_of mv key = Some m"
    and z: "tensor_zip (-) (val p) m = Inr t"
    and r: "apply_momentum mv ps = Inr rest'"
    and ps': "ps' = (key, p\<lparr>val := t\<rparr>) # rest'"
    unfolding kp by (auto split: option.splits elim!: bindE_InrE)
  show ?case
    unfolding ps' kp using Cons.IH[OF r] m z by simp
qed


lemma state_dict_mem:
  "(key, t) \<in> set (state_dict_of m) \<longleftrightarrow>
     (\<exists>p. (key, p) \<in> set (named_parameters m) \<and> val p = t) \<or> (key, t) \<in> set (named_buffers m)"
  unfolding state_dict_of_def by force

lemma state_dict_keys:
  "map fst (state_dict_of m) = map fst (named_parameters m) @ map fst (named_buffers m)"
proof -
  have "map fst (map (\<lambda>(k, p). (k, val p)) qs) = map fst qs" for qs :: "(string \<times> param) list"
    by (induction qs) auto
  then show ?thesis
    unfolding state_dict_of_def by simp
qed

lemma sum_zip_rel:
  assumes "list_all2 R cs ds" and "\<And>c d. R c d \<Longrightarrow> f c = g d"
  shows "(\<Sum>(w, c)\<leftarrow>zip ws cs. (w :: real) * f c) = (\<Sum>(w, d)\<leftarrow>zip ws ds. w * g d)"
  using assms(1)
proof (induction arbitrary: ws rule: list_all2_induct)
  case Nil
  show ?case by simp
next
  case (Cons c cs d ds)
  show ?case
  proof (cases ws)
    case Nil
    then show ?thesis by simp
  next
    case (Cons w ws')
    show ?thesis
      unfolding Cons using assms(2)[OF Cons.hyps(1)] Cons.IH[of ws'] by simp
  qed
qed


lemma aggregate_parts:
  assumes "FedAVGM_aggregate ign srv cs ws = Inr srv'"
  shows "\<exists>dfs avg mv' ps'.
           mapE (diff_model ign (state_dict_of (avgm_model srv))) cs = Inr dfs \<and>
           avg_keys ign (state_dict_of (avgm_model srv)) dfs ws
             (map fst (state_dict_of (avgm_model srv))) [] = Inr avg \<and>
           (case momentum_vector srv of
              None \<Rightarrow> Inr avg
            | Some mv \<Rightarrow> update_momentum (momentum srv) avg
                           (map fst (state_dict_of (avgm_model srv))) mv) = Inr mv' \<and>
           apply_momentum mv' (named_parameters (avgm_model srv)) = Inr ps' \<and>
           srv' = srv\<lparr>avgm_model := (avgm_model srv)\<lparr>named_parameters := ps'\<rparr>,
                      momentum_vector := Some mv'\<rparr>"
  using assms unfolding FedAVGM_aggregate_def Let_def
  by (elim bindE_InrE) auto

lemma aggregate_step:
  assumes agg: "FedAVGM_aggregate ign srv cs ws = Inr srv'"
    and dist: "distinct (map fst (state_dict_of (avgm_model srv)))"
    and mem: "(key, t) \<in> set (state_dict_of (avgm_model srv))" and wt: "wf_tensor t"
    and ni: "\<not> endswith key ign"
    and ne: "cs \<noteq> []"
    and cwf: "list_all (list_all (\<lambda>(k, t). wf_tensor t)) cs"
    and mvinv: "case momentum_vector srv of None \<Rightarrow> True
                | Some mv \<Rightarrow> (case map_of mv key of None \<Rightarrow> False
                              | Some m \<Rightarrow> shape m = shape t \<and> length (data m) = length (data t))"
  shows "\<exists>mv' m' t'. momentum_vector srv' = Some mv' \<and> map_of mv' key = Some m' \<and>
           shape m' = shape t \<and> length (data m') = length (data t) \<and>
           (\<forall>e<length (data t). data m' ! e =
              (case momentum_vector srv of None \<Rightarrow> 0
               | Some mv \<Rightarrow> momentum srv * data (the (map_of mv key)) ! e) +
              weighted_diff (state_dict_of (avgm_model srv)) cs ws key ! e) \<and>
           (key, t') \<in> set (state_dict_of (avgm_model srv')) \<and> shape t' = shape t \<and>
           wf_tensor t' \<and>
           distinct (map fst (state_dict_of (avgm_model srv'))) \<and> momentum srv' = momentum srv"
proof -
  define msd where "msd = state_dict_of (avgm_model srv)"
  define n where "n = length (data t)"
  define mu where "mu = momentum srv"
  from aggregate_parts[OF agg] obtain dfs avg mv' ps' where
    d: "mapE (diff_model ign msd) cs = Inr dfs"
    and a: "avg_keys ign msd dfs ws (map fst msd) [] = Inr avg"
    and u: "(case momentum_vector srv of None \<Rightarrow> Inr avg
             | Some mv \<Rightarrow> update_momentum mu avg (map fst msd) mv) = Inr mv'"
    and p: "apply_momentum mv' (named_parameters (avgm_model srv)) = Inr ps'"
    and s: "srv' = srv\<lparr>avgm_model := (avgm_model srv)\<lparr>named_parameters := ps'\<rparr>,
                      momentum_vector := Some mv'\<rparr>"
    unfolding msd_def mu_def by (elim exE conjE)
  have dist': "distinct (map fst msd)" and mem': "(key, t) \<in> set msd"
    unfolding msd_def by (rule dist, rule mem)
  have mt: "map_of msd key = Some t"
    using dist' mem' by simp
  have nn: "n = prod_list (shape t)"
    using wt unfolding n_def wf_tensor_def numel_def .
  define R where "R = (\<lambda>(c :: state_dict) (df :: state_dict).
                          \<exists>c' :: tensor. map_of c key = Some c' \<and> length (data c') = n \<and>
                          map_of df key = Some \<lparr> shape = shape t,
                                                 data = map2 (-) (data t) (data c') \<rparr>)"
  have l2: "list_all2 (\<lambda>c df. diff_model ign msd c = Inr df) cs dfs"
    by (rule mapE_Inr[OF d])
  have len: "length cs = length dfs"
    by (rule list_all2_lengthD[OF l2])
  have lR: "list_all2 R cs dfs"
    unfolding list_all2_conv_all_nth
  proof (intro conjI allI impI)
    show "length cs = length dfs"
      by (rule len)
  next
    fix i
    assume i: "i < length cs"
    have dm: "diff_model ign msd (cs ! i) = Inr (dfs ! i)"
      by (rule list_all2_nthD[OF l2 i])
    have cw: "list_all (\<lambda>(k, t). wf_tensor t) (cs ! i)"
      using cwf i by (simp add: list_all_length)
    from diff_model_key[OF dm dist' mem' ni]
    obtain c' where c1: "map_of (cs ! i) key = Some c'" and c2: "shape c' = shape t"
      and c3: "map_of (dfs ! i) key = Some \<lparr> shape = shape t,
                                              data = map2 (-) (data t) (data c') \<rparr>"
      by (elim exE conjE)
    have "(key, c') \<in> set (cs ! i)"
      by (rule map_of_SomeD[OF c1])
    then have "wf_tensor c'"
      using cw unfolding list_all_iff by auto
    then have c4: "length (data c') = n"
      unfolding wf_tensor_def numel_def c2 nn .
    show "R (cs ! i) (dfs ! i)"
      unfolding R_def by (intro exI[of _ c'] conjI c1 c4 c3)
  qed
  have dne: "dfs \<noteq> []"
    using ne len by auto
  have dok: "list_all (\<lambda>d. case map_of d key of None \<Rightarrow> False
                        | Some dt \<Rightarrow> shape dt = shape t \<and> length (data dt) = n) dfs"
    unfolding list_all_length
  proof (intro allI impI)
    fix i
    assume "i < length dfs"
    then have "R (cs ! i) (dfs ! i)"
      using list_all2_nthD2[OF lR] by simp
    then show "case map_of (dfs ! i) key of None \<Rightarrow> False
               | Some dt \<Rightarrow> shape dt = shape t \<and> length (data dt) = n"
      unfolding R_def n_def by auto
  qed
  have kin: "key \<in> set (map fst msd)"
    using mem' by force
  from avg_keys_key[OF a dist' kin ni _ dne dok]
  obtain a' where a1: "map_of avg key = Some a'" and a2: "shape a' = shape t"
    and a3: "length (data a') = n"
    and a4: "\<forall>e<n. data a' ! e = (\<Sum>(w, d)\<leftarrow>zip ws dfs. w * data (the (map_of d key)) ! e)"
    by auto
  have wd: "\<forall>e<n. data a' ! e = weighted_diff msd cs ws key ! e"
  proof (intro allI impI)
    fix e
    assume e: "e < n"
    have rel: "\<And>c df. R c df \<Longrightarrow>
                 data t ! e - (case map_of c key of None \<Rightarrow> 0 | Some ct \<Rightarrow> data ct ! e) =
                 data (the (map_of df key)) ! e"
      unfolding R_def using e unfolding n_def by auto
    have "data a' ! e = (\<Sum>(w, d)\<leftarrow>zip ws dfs. w * data (the (map_of d key)) ! e)"
      using a4 e by simp
    also have "\<dots> = (\<Sum>(w, c)\<leftarrow>zip ws cs.
                       w * (data t ! e - (case map_of c key of None \<Rightarrow> 0 | Some ct \<Rightarrow> data ct ! e)))"
      by (rule sum_zip_rel[OF lR rel, symmetric])
    also have "\<dots> = weighted_diff msd cs ws key ! e"
    proof -
      have g: "\<And>f :: nat \<Rightarrow> real. map f [0..<length (data t)] ! e = f e"
        using e unfolding n_def by simp
      show ?thesis
        unfolding weighted_diff_def mt option.case g ..
    qed
    finally show "data a' ! e = weighted_diff msd cs ws key ! e" .
  qed
  \<comment> \<open>the momentum vector at the key\<close>
  have "\<exists>m'. map_of mv' key = Some m' \<and> shape m' = shape t \<and> length (data m') = n \<and>
             (\<forall>e<n. data m' ! e =
                (case momentum_vector srv of None \<Rightarrow> 0
                 | Some mv \<Rightarrow> mu * data (the (map_of mv key)) ! e) + data a' ! e)"
  proof (cases "momentum_vector srv")
    case None
    have "mv' = avg"
      using u unfolding None by simp
    then show ?thesis
      unfolding None by (intro exI[of _ a'] conjI) (simp_all add: a1 a2 a3)
  next
    case (Some mv)
    have um: "update_momentum mu avg (map fst msd) mv = Inr mv'"
      using u unfolding Some by simp
    from update_momentum_key[OF um dist' kin]
    obtain m a0 t2 where m1: "map_of mv key = Some m" and m2: "map_of avg key = Some a0"
      and m3: "tensor_zip (+) (tensor_scale mu m) a0 = Inr t2" and m4: "map_of mv' key = Some t2"
      by (elim exE conjE)
    have a0: "a0 = a'"
      using m2 a1 by simp
    have ms: "shape m = shape t" and ml: "length (data m) = n"
      using mvinv unfolding Some n_def by (simp_all add: m1)
    have t2: "t2 = \<lparr> shape = shape m, data = map2 (+) (map (\<lambda>x. mu * x) (data m)) (data a') \<rparr>"
      using m3 unfolding tensor_zip_def tensor_scale_def a0 by (auto split: if_splits)
    show ?thesis
      unfolding Some by (intro exI[of _ t2] conjI m4) (simp_all add: t2 ms ml a3 m1)
  qed
  then obtain m' where b1: "map_of mv' key = Some m'" and b2: "shape m' = shape t"
    and b3: "length (data m') = n"
    and b4: "\<forall>e<n. data m' ! e =
                (case momentum_vector srv of None \<Rightarrow> 0
                 | Some mv \<Rightarrow> mu * data (the (map_of mv key)) ! e) + data a' ! e"
    by (elim exE conjE)
  have b5: "\<forall>e<n. data m' ! e =
                (case momentum_vector srv of None \<Rightarrow> 0
                 | Some mv \<Rightarrow> mu * data (the (map_of mv key)) ! e) +
                weighted_diff msd cs ws key ! e"
    using b4 wd by simp
  \<comment> \<open>the model at the key\<close>
  have mvs: "momentum_vector srv' = Some mv'" and mus: "momentum srv' = momentum srv"
    and nps: "named_parameters (avgm_model srv') = ps'"
    and nbs: "named_buffers (avgm_model srv') = named_buffers (avgm_model srv)"
    unfolding s by simp_all
  have pk: "map fst ps' = map fst (named_parameters (avgm_model srv))"
    by (rule apply_momentum_keys[OF p])
  have dk: "distinct (map fst (state_dict_of (avgm_model srv')))"
    using dist unfolding state_dict_keys nps nbs pk .
  have "\<exists>t'. (key, t') \<in> set (state_dict_of (avgm_model srv')) \<and> shape t' = shape t \<and>
             wf_tensor t'"
  proof (cases "(key, t) \<in> set (named_buffers (avgm_model srv))")
    case True
    have "(key, t) \<in> set (state_dict_of (avgm_model srv'))"
      unfolding state_dict_mem nbs using True by simp
    then show ?thesis
      using wt by (intro exI[of _ t] conjI) simp_all
  next
    case False
    then obtain q where q1: "(key, q) \<in> set (named_parameters (avgm_model srv))"
      and q2: "val q = t"
      using mem unfolding state_dict_mem by auto
    obtain i where i: "i < length (named_parameters (avgm_model srv))"
      and qi: "named_parameters (avgm_model srv) ! i = (key, q)"
      using q1 unfolding in_set_conv_nth by auto
    note rel = list_all2_nthD[OF apply_momentum_rel[OF p] i, unfolded qi fst_conv snd_conv]
    obtain k' q' where pi: "ps' ! i = (k', q')"
      by (cases "ps' ! i")
    have k': "k' = key"
      using rel unfolding pi by simp
    obtain m2 where r1: "map_of mv' key = Some m2"
      and r2: "tensor_zip (-) (val q) m2 = Inr (val q')"
      using rel unfolding pi by auto
    have m2: "m2 = m'"
      using r1 b1 by simp
    have vq: "val q' = \<lparr> shape = shape t, data = map2 (-) (data t) (data m') \<rparr>"
      using r2 unfolding tensor_zip_def m2 q2 by (auto split: if_splits)
    have il: "i < length ps'"
      using i list_all2_lengthD[OF apply_momentum_rel[OF p]] by simp
    have "(key, q') \<in> set ps'"
      using nth_mem[OF il] unfolding pi k' .
    then have i1: "(key, val q') \<in> set (state_dict_of (avgm_model srv'))"
      unfolding state_dict_mem nps by auto
    have i2: "shape (val q') = shape t"
      unfolding vq by simp
    have i3: "wf_tensor (val q')"
      unfolding wf_tensor_def numel_def vq using b3 nn unfolding n_def by simp
    show ?thesis
      by (intro exI[of _ "val q'"] conjI i1 i2 i3)
  qed
  then obtain t' where e1: "(key, t') \<in> set (state_dict_of (avgm_model srv'))"
    and e2: "shape t' = shape t" and e3: "wf_tensor t'"
    by (elim exE conjE)
  show ?thesis
    by (intro exI[of _ mv'] exI[of _ m'] exI[of _ t'] conjI mvs b1 b2 b3[unfolded n_def]
          b5[unfolded n_def msd_def mu_def] e1 e2 e3 dk mus)
qed


lemma rounds_momentum:
  assumes "FedAVGM_rounds ign srv rounds = Inr srv'"
    and "distinct (map fst (state_dict_of (avgm_model srv)))"
    and "(key, t) \<in> set (state_dict_of (avgm_model srv))" and "wf_tensor t"
    and "\<not> endswith key ign"
    and "list_all (\<lambda>(cs, ws). cs \<noteq> [] \<and> list_all (list_all (\<lambda>(k, t). wf_tensor t)) cs) rounds"
    and "case momentum_vector srv of None \<Rightarrow> True
         | Some mv \<Rightarrow> (case map_of mv key of None \<Rightarrow> False
                       | Some m \<Rightarrow> shape m = shape t \<and> length (data m) = length (data t))"
    and "rounds \<noteq> []"
  shows "\<exists>mv' m'. momentum_vector srv' = Some mv' \<and> map_of mv' key = Some m' \<and>
           shape m' = shape t \<and> length (data m') = length (data t) \<and>
           (\<forall>e<length (data t). data m' ! e =
              momentum srv ^ length rounds *
                (case momentum_vector srv of None \<Rightarrow> 0
                 | Some mv \<Rightarrow> data (the (map_of mv key)) ! e) +
              (\<Sum>j<length rounds. momentum srv ^ (length rounds - 1 - j) *
                                   (round_diffs ign srv rounds key ! j ! e)))"
  using assms(1,2,3,4,6,7,8)
proof (induction rounds arbitrary: srv t)
  case Nil
  then show ?case by simp
next
  case (Cons r rest)
  obtain cs ws where r: "r = (cs, ws)"
    by (cases r)
  define mu where "mu = momentum srv"
  define wd where "wd = weighted_diff (state_dict_of (avgm_model srv)) cs ws key"
  define M0 where "M0 = (\<lambda>e. case momentum_vector srv of None \<Rightarrow> 0
                              | Some mv \<Rightarrow> data (the (map_of mv key)) ! e)"
  obtain srv1 where agg: "FedAVGM_aggregate ign srv cs ws = Inr srv1"
    and rr: "FedAVGM_rounds ign srv1 rest = Inr srv'"
    using Cons.prems(1) unfolding r by (auto elim!: bindE_InrE)
  have ne: "cs \<noteq> []" and cwf: "list_all (list_all (\<lambda>(k, t). wf_tensor t)) cs"
    and good: "list_all (\<lambda>(cs, ws). cs \<noteq> [] \<and> list_all (list_all (\<lambda>(k, t). wf_tensor t)) cs) rest"
    using Cons.prems(5) unfolding r by simp_all
  from aggregate_step[OF agg Cons.prems(2,3,4) assms(5) ne cwf Cons.prems(6)]
  obtain mv1 m1 t1 where s1: "momentum_vector srv1 = Some mv1" and s2: "map_of mv1 key = Some m1"
    and s3: "shape m1 = shape t" and s4: "length (data m1) = length (data t)"
    and s5: "\<forall>e<length (data t). data m1 ! e =
              (case momentum_vector srv of None \<Rightarrow> 0
               | Some mv \<Rightarrow> momentum srv * data (the (map_of mv key)) ! e) + wd ! e"
    and s6: "(key, t1) \<in> set (state_dict_of (avgm_model srv1))" and s7: "shape t1 = shape t"
    and s8: "wf_tensor t1"
    and s9: "distinct (map fst (state_dict_of (avgm_model srv1)))"
    and s10: "momentum srv1 = momentum srv"
    unfolding wd_def by (elim exE conjE)
  have first: "\<forall>e<length (data t). data m1 ! e = mu * M0 e + wd ! e"
    using s5 unfolding M0_def mu_def by (cases "momentum_vector srv") simp_all
  have rd: "round_diffs ign srv (r # rest) key = wd # round_diffs ign srv1 rest key"
    unfolding r wd_def by (simp add: agg)
  show ?case
  proof (cases "rest = []")
    case True
    have e: "srv' = srv1"
      using rr True by simp
    have v: "\<forall>e<length (data t). data m1 ! e =
              momentum srv ^ length (r # rest) * M0 e +
              (\<Sum>j<length (r # rest). momentum srv ^ (length (r # rest) - 1 - j) *
                                   (round_diffs ign srv (r # rest) key ! j ! e))"
      using first unfolding mu_def by (simp add: rd[unfolded True] True)
    show ?thesis
      unfolding e
      by (intro exI[of _ mv1] exI[of _ m1] conjI s1 s2 s3 s4 v[unfolded M0_def])
  next
    case False
    have tl: "length (data t1) = length (data t)"
      using s8 Cons.prems(4) unfolding wf_tensor_def numel_def s7 by simp
    have inv1: "case momentum_vector srv1 of None \<Rightarrow> True
         | Some mv \<Rightarrow> (case map_of mv key of None \<Rightarrow> False
                       | Some m \<Rightarrow> shape m = shape t1 \<and> length (data m) = length (data t1))"
      unfolding s1 by (simp add: s2 s3 s4 s7 tl)
    from Cons.IH[OF rr s9 s6 s8 good inv1 False]
    obtain mv' m' where u1: "momentum_vector srv' = Some mv'" and u2: "map_of mv' key = Some m'"
      and u3: "shape m' = shape t1" and u4: "length (data m') = length (data t1)"
      and u5: "\<forall>e<length (data t1). data m' ! e =
              momentum srv1 ^ length rest *
                (case momentum_vector srv1 of None \<Rightarrow> 0
                 | Some mv \<Rightarrow> data (the (map_of mv key)) ! e) +
              (\<Sum>j<length rest. momentum srv1 ^ (length rest - 1 - j) *
                                   (round_diffs ign srv1 rest key ! j ! e))"
      by (elim exE conjE)
    define D where "D = round_diffs ign srv1 rest key"
    define k where "k = length rest"
    have v: "\<forall>e<length (data t). data m' ! e =
              momentum srv ^ length (r # rest) * M0 e +
              (\<Sum>j<length (r # rest). momentum srv ^ (length (r # rest) - 1 - j) *
                                   (round_diffs ign srv (r # rest) key ! j ! e))"
    proof (intro allI impI)
      fix e
      assume e: "e < length (data t)"
      have "data m' ! e = mu ^ k * data m1 ! e + (\<Sum>j<k. mu ^ (k - 1 - j) * (D ! j ! e))"
        using u5 e unfolding tl s1 s10 D_def k_def mu_def by (simp add: s2)
      also have "data m1 ! e = mu * M0 e + wd ! e"
        using first e by simp
      also have "mu ^ k * (mu * M0 e + wd ! e) + (\<Sum>j<k. mu ^ (k - 1 - j) * (D ! j ! e)) =
                 mu ^ Suc k * M0 e +
                 (mu ^ k * wd ! e + (\<Sum>j<k. mu ^ (k - 1 - j) * (D ! j ! e)))"
        by (simp add: algebra_simps)
      also have "mu ^ k * wd ! e + (\<Sum>j<k. mu ^ (k - 1 - j) * (D ! j ! e)) =
                 (\<Sum>j<Suc k. mu ^ (Suc k - 1 - j) * ((wd # D) ! j ! e))"
        unfolding sum.lessThan_Suc_shift by simp
      finally show "data m' ! e =
              momentum srv ^ length (r # rest) * M0 e +
              (\<Sum>j<length (r # rest). momentum srv ^ (length (r # rest) - 1 - j) *
                                   (round_diffs ign srv (r # rest) key ! j ! e))"
        unfolding rd D_def k_def mu_def by simp
    qed
    show ?thesis
      by (intro exI[of _ mv'] exI[of _ m'] conjI u1 u2 u3[unfolded s7] u4[unfolded tl]
            v[unfolded M0_def])
  qed
qed



lemma FedAVGM_rounds_snoc:
  "FedAVGM_rounds ign srv (rounds @ [(cs, ws)]) =
     bindE (FedAVGM_rounds ign srv rounds) (\<lambda>s. FedAVGM_aggregate ign s cs ws)"
proof (induction rounds arbitrary: srv)
  case Nil
  show ?case by (cases "FedAVGM_aggregate ign srv cs ws") simp_all
next
  case (Cons r rounds)
  obtain cs1 ws1 where r: "r = (cs1, ws1)"
    by (cases r)
  show ?case
    unfolding r by (cases "FedAVGM_aggregate ign srv cs1 ws1") (simp_all add: Cons.IH)
qed

lemma length_round_diffs:
  "FedAVGM_rounds ign srv rounds = Inr srv' \<Longrightarrow>
     length (round_diffs ign srv rounds key) = length rounds"
proof (induction rounds arbitrary: srv)
  case Nil
  show ?case by simp
next
  case (Cons r rounds)
  obtain cs1 ws1 where r: "r = (cs1, ws1)"
    by (cases r)
  obtain srv1 where a: "FedAVGM_aggregate ign srv cs1 ws1 = Inr srv1"
    and b: "FedAVGM_rounds ign srv1 rounds = Inr srv'"
    using Cons.prems unfolding r by (auto elim!: bindE_InrE)
  show ?case
    unfolding r using Cons.IH[OF b] by (simp add: a)
qed


text \<open>
  Claim C1. For a server that starts without a momentum vector and runs \<open>k\<close> rounds of
  \<^verbatim>\<open>FedAVGMServer.aggregate\<close> that all return, on a well-formed global model and with at
  least one client with well-formed tensors in every round: for every key of the global
  state that is not ignored, the momentum vector after the last round holds
  \<open>\<Sum>\<^sub>j\<^sub>=\<^sub>1\<^sub>.\<^sub>.\<^sub>k \<mu>\<^sup>k\<^sup>-\<^sup>j d\<^sub>j\<close>, element by element, where \<open>d\<^sub>j\<close> is the weighted diff of round
  \<open>j\<close>, taken on the global state that round starts from; after a single round it holds
  the weighted diff of that round; and the last round, which is any round, sets every
  named parameter to its value minus the entry of the momentum vector for its name.
\<close>

theorem momentum_recurrence:
  assumes "FedAVGM_rounds ign srv (rounds @ [(cs, ws)]) = Inr srv'"
    and "momentum_vector srv = None"
    and "wf_module (avgm_model srv)"
    and "list_all (\<lambda>(cs, ws). cs \<noteq> [] \<and> list_all (list_all (\<lambda>(k, t). wf_tensor t)) cs)
           (rounds @ [(cs, ws)])"
  shows "\<exists>s mv. FedAVGM_rounds ign srv rounds = Inr s \<and>
           FedAVGM_aggregate ign s cs ws = Inr srv' \<and>
           momentum_vector srv' = Some mv \<and>
           (\<forall>key t. (key, t) \<in> set (state_dict_of (avgm_model srv)) \<and> \<not> endswith key ign \<longrightarrow>
              map_of mv key =
                Some \<lparr> shape = shape t,
                       data = momentum_sum (momentum srv)
                                (round_diffs ign srv (rounds @ [(cs, ws)]) key)
                                (length (data t)) \<rparr>) \<and>
           (rounds = [] \<longrightarrow>
              (\<forall>key t. (key, t) \<in> set (state_dict_of (avgm_model srv)) \<and> \<not> endswith key ign \<longrightarrow>
                 map_of mv key =
                   Some \<lparr> shape = shape t,
                          data = weighted_diff (state_dict_of (avgm_model srv)) cs ws key \<rparr>)) \<and>
           list_all2 (\<lambda>kp kp'. fst kp' = fst kp \<and>
                        requires_grad (snd kp') = requires_grad (snd kp) \<and>
                        (\<exists>m. map_of mv (fst kp) = Some m \<and> shape m = shape (val (snd kp)) \<and>
                             val (snd kp') =
                               \<lparr> shape = shape (val (snd kp)),
                                 data = map2 (-) (data (val (snd kp))) (data m) \<rparr>))
             (named_parameters (avgm_model s)) (named_parameters (avgm_model srv'))"
proof -
  define all_rounds where "all_rounds = rounds @ [(cs, ws)]"
  have run: "FedAVGM_rounds ign srv all_rounds = Inr srv'"
    unfolding all_rounds_def by (rule assms(1))
  have "bindE (FedAVGM_rounds ign srv rounds) (\<lambda>s. FedAVGM_aggregate ign s cs ws) = Inr srv'"
    using assms(1) by (simp only: FedAVGM_rounds_snoc)
  then obtain s where s1: "FedAVGM_rounds ign srv rounds = Inr s"
    and s2: "FedAVGM_aggregate ign s cs ws = Inr srv'"
    by (rule bindE_InrE)
  from aggregate_parts[OF s2] obtain mv ps' where
    p: "apply_momentum mv (named_parameters (avgm_model s)) = Inr ps'"
    and e: "srv' = s\<lparr>avgm_model := (avgm_model s)\<lparr>named_parameters := ps'\<rparr>,
                    momentum_vector := Some mv\<rparr>"
    by (elim exE conjE)
  have mvs: "momentum_vector srv' = Some mv" and nps: "named_parameters (avgm_model srv') = ps'"
    unfolding e by simp_all
  have dist: "distinct (map fst (state_dict_of (avgm_model srv)))"
    and wfa: "list_all (\<lambda>(k, t). wf_tensor t) (state_dict_of (avgm_model srv))"
    using assms(3) unfolding wf_module_def by simp_all
  have inv: "case momentum_vector srv of None \<Rightarrow> True
         | Some mv \<Rightarrow> (case map_of mv key of None \<Rightarrow> False
                       | Some m \<Rightarrow> shape m = shape t \<and> length (data m) = length (data t))"
    for key :: string and t :: tensor
    unfolding assms(2) by simp
  have ne: "all_rounds \<noteq> []"
    unfolding all_rounds_def by simp
  have good: "list_all (\<lambda>(cs, ws). cs \<noteq> [] \<and> list_all (list_all (\<lambda>(k, t). wf_tensor t)) cs)
                all_rounds"
    unfolding all_rounds_def by (rule assms(4))
  have closed: "\<forall>key t. (key, t) \<in> set (state_dict_of (avgm_model srv)) \<and> \<not> endswith key ign \<longrightarrow>
              map_of mv key =
                Some \<lparr> shape = shape t,
                       data = momentum_sum (momentum srv) (round_diffs ign srv all_rounds key)
                                (length (data t)) \<rparr>"
  proof (intro allI impI)
    fix key t
    assume h: "(key, t) \<in> set (state_dict_of (avgm_model srv)) \<and> \<not> endswith key ign"
    then have mem: "(key, t) \<in> set (state_dict_of (avgm_model srv))" and ni: "\<not> endswith key ign"
      by simp_all
    have wt: "wf_tensor t"
      using wfa mem unfolding list_all_iff by auto
    from rounds_momentum[OF run dist mem wt ni good inv ne]
    obtain mv' m' where r1: "momentum_vector srv' = Some mv'" and r2: "map_of mv' key = Some m'"
      and r3: "shape m' = shape t" and r4: "length (data m') = length (data t)"
      and r5: "\<forall>e<length (data t). data m' ! e =
              momentum srv ^ length all_rounds *
                (case momentum_vector srv of None \<Rightarrow> 0
                 | Some mv \<Rightarrow> data (the (map_of mv key)) ! e) +
              (\<Sum>j<length all_rounds. momentum srv ^ (length all_rounds - 1 - j) *
                                   (round_diffs ign srv all_rounds key ! j ! e))"
      by (elim exE conjE)
    have mv': "mv' = mv"
      using r1 mvs by simp
    have lr: "length (round_diffs ign srv all_rounds key) = length all_rounds"
      by (rule length_round_diffs[OF run])
    have "data m' = momentum_sum (momentum srv) (round_diffs ign srv all_rounds key)
                      (length (data t))"
    proof (rule nth_equalityI)
      show "length (data m') =
              length (momentum_sum (momentum srv) (round_diffs ign srv all_rounds key)
                        (length (data t)))"
        unfolding momentum_sum_def by (simp add: r4)
    next
      fix e
      assume "e < length (data m')"
      then have e: "e < length (data t)"
        unfolding r4 .
      have g: "\<And>f :: nat \<Rightarrow> real. map f [0..<length (data t)] ! e = f e"
        using e by simp
      have "data m' ! e =
              (\<Sum>j<length all_rounds. momentum srv ^ (length all_rounds - 1 - j) *
                                   (round_diffs ign srv all_rounds key ! j ! e))"
        using r5 e unfolding assms(2) by simp
      then show "data m' ! e =
              momentum_sum (momentum srv) (round_diffs ign srv all_rounds key)
                (length (data t)) ! e"
        unfolding momentum_sum_def g lr .
    qed
    then have "m' = \<lparr> shape = shape t,
                       data = momentum_sum (momentum srv) (round_diffs ign srv all_rounds key)
                                (length (data t)) \<rparr>"
      using r3 by (cases m') simp
    then show "map_of mv key =
                Some \<lparr> shape = shape t,
                       data = momentum_sum (momentum srv) (round_diffs ign srv all_rounds key)
                                (length (data t)) \<rparr>"
      using r2 unfolding mv' by simp
  qed
  have single: "rounds = [] \<longrightarrow>
              (\<forall>key t. (key, t) \<in> set (state_dict_of (avgm_model srv)) \<and> \<not> endswith key ign \<longrightarrow>
                 map_of mv key =
                   Some \<lparr> shape = shape t,
                          data = weighted_diff (state_dict_of (avgm_model srv)) cs ws key \<rparr>)"
  proof (intro impI allI)
    fix key t
    assume r0: "rounds = []"
      and h: "(key, t) \<in> set (state_dict_of (avgm_model srv)) \<and> \<not> endswith key ign"
    then have mem: "(key, t) \<in> set (state_dict_of (avgm_model srv))" and ni: "\<not> endswith key ign"
      by simp_all
    have mt: "map_of (state_dict_of (avgm_model srv)) key = Some t"
      using dist mem by simp
    define wd where "wd = weighted_diff (state_dict_of (avgm_model srv)) cs ws key"
    have lw: "length wd = length (data t)"
      unfolding wd_def weighted_diff_def mt by simp
    have rd: "round_diffs ign srv all_rounds key = [wd]"
      using length_round_diffs[OF run, of key] unfolding all_rounds_def r0 wd_def
      by (cases "FedAVGM_aggregate ign srv cs ws") simp_all
    have "momentum_sum (momentum srv) [wd] (length (data t)) = wd"
    proof (rule nth_equalityI)
      show "length (momentum_sum (momentum srv) [wd] (length (data t))) = length wd"
        unfolding momentum_sum_def lw by simp
    next
      fix e
      assume "e < length (momentum_sum (momentum srv) [wd] (length (data t)))"
      then have e: "e < length (data t)"
        unfolding momentum_sum_def by simp
      have g: "\<And>f :: nat \<Rightarrow> real. map f [0..<length (data t)] ! e = f e"
        using e by simp
      show "momentum_sum (momentum srv) [wd] (length (data t)) ! e = wd ! e"
        unfolding momentum_sum_def g by simp
    qed
    then show "map_of mv key =
                   Some \<lparr> shape = shape t,
                          data = weighted_diff (state_dict_of (avgm_model srv)) cs ws key \<rparr>"
      using closed[rule_format, OF h] unfolding rd wd_def by simp
  qed
  have upd: "list_all2 (\<lambda>kp kp'. fst kp' = fst kp \<and>
                        requires_grad (snd kp') = requires_grad (snd kp) \<and>
                        (\<exists>m. map_of mv (fst kp) = Some m \<and> shape m = shape (val (snd kp)) \<and>
                             val (snd kp') =
                               \<lparr> shape = shape (val (snd kp)),
                                 data = map2 (-) (data (val (snd kp))) (data m) \<rparr>))
             (named_parameters (avgm_model s)) (named_parameters (avgm_model srv'))"
    unfolding nps
  proof (rule list_all2_mono[OF apply_momentum_rel[OF p]])
    fix kp kp' :: "string \<times> param"
    assume a: "fst kp' = fst kp \<and> requires_grad (snd kp') = requires_grad (snd kp) \<and>
               (\<exists>m. map_of mv (fst kp) = Some m \<and>
                    tensor_zip (-) (val (snd kp)) m = Inr (val (snd kp')))"
    then obtain m where m1: "map_of mv (fst kp) = Some m"
      and m2: "tensor_zip (-) (val (snd kp)) m = Inr (val (snd kp'))"
      by (elim exE conjE)
    have m3: "shape m = shape (val (snd kp))"
      and m4: "val (snd kp') = \<lparr> shape = shape (val (snd kp)),
                                  data = map2 (-) (data (val (snd kp))) (data m) \<rparr>"
      using m2 unfolding tensor_zip_def by (auto split: if_splits)
    show "fst kp' = fst kp \<and> requires_grad (snd kp') = requires_grad (snd kp) \<and>
          (\<exists>m. map_of mv (fst kp) = Some m \<and> shape m = shape (val (snd kp)) \<and>
               val (snd kp') = \<lparr> shape = shape (val (snd kp)),
                                  data = map2 (-) (data (val (snd kp))) (data m) \<rparr>)"
      using a by (intro conjI exI[of _ m] m1 m3 m4) simp_all
  qed
  show ?thesis
    by (intro exI[of _ s] exI[of _ mv] conjI s1 s2 mvs closed[unfolded all_rounds_def] single upd)
qed


theorem momentum_recurrence_witness:
  "\<exists>srv'. FedAVGM_rounds avgm_ignore scalar_server [scalar_round1, scalar_round2] = Inr srv' \<and>
      momentum_vector scalar_server = None \<and> wf_module (avgm_model scalar_server) \<and>
      list_all (\<lambda>(cs, ws). cs \<noteq> [] \<and> list_all (list_all (\<lambda>(k, t). wf_tensor t)) cs)
        [scalar_round1, scalar_round2] \<and>
      round_diffs avgm_ignore scalar_server [scalar_round1, scalar_round2] ''w'' = [[2], [3]] \<and>
      momentum_sum (9 / 10) [[2], [3]] 1 = [9 / 10 * 2 + 3] \<and>
      map_of (the (momentum_vector srv')) ''w'' = Some \<lparr> shape = [1], data = [24 / 5] \<rparr> \<and>
      map_of (state_dict_of (avgm_model srv')) ''w'' = Some \<lparr> shape = [1], data = [10 - 2 - 24 / 5] \<rparr>"
proof -
  let ?c2 = "[[(''w'', \<lparr> shape = [1], data = [5] \<rparr>)]] :: state_dict list"
  let ?A = "\<lparr> avgm_model =
               \<lparr> named_parameters =
                   [(''w'', \<lparr> val = \<lparr> shape = [1], data = [16 / 5] \<rparr>, requires_grad = True \<rparr>)],
                 named_buffers = [] \<rparr>,
             momentum = 9 / 10,
             momentum_vector = Some [(''w'', \<lparr> shape = [1], data = [24 / 5] \<rparr>)] \<rparr>"
  have r2: "scalar_round2 = (?c2, [1])"
    by (simp add: scalar_round2_def)
  have l: "[scalar_round1, scalar_round2] = [scalar_round1] @ [(?c2, [1])]"
    unfolding r2 by simp
  have run: "FedAVGM_rounds avgm_ignore scalar_server [scalar_round1, scalar_round2] = Inr ?A"
    by code_simp
  have h1: "FedAVGM_rounds avgm_ignore scalar_server ([scalar_round1] @ [(?c2, [1])]) = Inr ?A"
    using run unfolding l .
  have h2: "momentum_vector scalar_server = None"
    by (simp add: scalar_server_def)
  have h3: "wf_module (avgm_model scalar_server)"
    by (simp add: scalar_server_def wf_module_def state_dict_of_def wf_tensor_def numel_def)
  have h4: "list_all (\<lambda>(cs, ws). cs \<noteq> [] \<and> list_all (list_all (\<lambda>(k, t). wf_tensor t)) cs)
              [scalar_round1, scalar_round2]"
    by (simp add: scalar_round1_def scalar_round2_def wf_tensor_def numel_def)
  have h4': "list_all (\<lambda>(cs, ws). cs \<noteq> [] \<and> list_all (list_all (\<lambda>(k, t). wf_tensor t)) cs)
              ([scalar_round1] @ [(?c2, [1])])"
    using h4 unfolding l .
  have rd: "round_diffs avgm_ignore scalar_server [scalar_round1, scalar_round2] ''w'' = [[2], [3]]"
    by code_simp
  have ms: "momentum_sum (9 / 10) [[2], [3]] 1 = [9 / 10 * 2 + 3]"
    by (simp add: momentum_sum_def)
  have mem: "(''w'', \<lparr> shape = [1], data = [10] \<rparr>) \<in> set (state_dict_of (avgm_model scalar_server))"
    by (simp add: scalar_server_def state_dict_of_def)
  have ni: "\<not> endswith ''w'' avgm_ignore"
    by code_simp
  from momentum_recurrence[OF h1 h2 h3 h4']
  obtain mv where mv: "momentum_vector ?A = Some mv"
    and closed: "\<forall>key t. (key, t) \<in> set (state_dict_of (avgm_model scalar_server)) \<and>
                         \<not> endswith key avgm_ignore \<longrightarrow>
              map_of mv key =
                Some \<lparr> shape = shape t,
                       data = momentum_sum (momentum scalar_server)
                                (round_diffs avgm_ignore scalar_server
                                   ([scalar_round1] @ [(?c2, [1])]) key)
                                (length (data t)) \<rparr>"
    by (elim exE conjE)
  have mu: "momentum scalar_server = 9 / 10"
    by (simp add: scalar_server_def)
  have "map_of mv ''w'' =
          Some \<lparr> shape = [1],
                 data = momentum_sum (momentum scalar_server)
                          (round_diffs avgm_ignore scalar_server
                             ([scalar_round1] @ [(?c2, [1])]) ''w'') 1 \<rparr>"
    using closed[rule_format, OF conjI[OF mem ni]] by simp
  then have "map_of mv ''w'' = Some \<lparr> shape = [1], data = [24 / 5] \<rparr>"
    unfolding l[symmetric] rd mu ms by simp
  then have c1: "map_of (the (momentum_vector ?A)) ''w'' = Some \<lparr> shape = [1], data = [24 / 5] \<rparr>"
    unfolding mv by simp
  have c2: "map_of (state_dict_of (avgm_model ?A)) ''w'' =
              Some \<lparr> shape = [1], data = [10 - 2 - 24 / 5] \<rparr>"
    by (simp add: state_dict_of_def)
  show ?thesis
    by (intro exI[of _ ?A] conjI run h2 h3 h4 rd ms c1 c2)
qed

end
